theory Spec2Isabelle
  imports Main
begin

section \<open>Strings of the host language\<close>

text \<open>
  The program is TypeScript. Its strings are modelled as Isabelle strings, a character
  being read as its code point (Latin-1). The string methods the program calls are
  written out below; none of them is defined in the repository.
\<close>

definition is_digit :: "char \<Rightarrow> bool" where
  \<comment> \<open>the class \<open>\d\<close> (also \<open>[0-9]\<close>)\<close>
  "is_digit c = (c \<in> set ''0123456789'')"

definition is_letter :: "char \<Rightarrow> bool" where
  \<comment> \<open>the class \<open>[a-zA-Z]\<close>\<close>
  "is_letter c = (c \<in> set ''abcdefghijklmnopqrstuvwxyzABCDEFGHIJKLMNOPQRSTUVWXYZ'')"

definition is_word :: "char \<Rightarrow> bool" where
  \<comment> \<open>the class \<open>\w\<close>, which decides where \<open>\b\<close> holds\<close>
  "is_word c = (is_digit c \<or> is_letter c \<or> c = CHR ''_'')"

definition is_space :: "char \<Rightarrow> bool" where
  \<comment> \<open>what \<open>trim\<close> strips: TAB, LF, VT, FF, CR, space, no-break space\<close>
  "is_space c = (c \<in> set [CHR 0x09, CHR 0x0A, CHR 0x0B, CHR 0x0C, CHR 0x0D, CHR 0x20, CHR 0xA0])"

definition js_trim :: "string \<Rightarrow> string" where
  "js_trim s = rev (dropWhile is_space (rev (dropWhile is_space s)))"

fun js_split :: "char \<Rightarrow> string \<Rightarrow> string list" where
  \<comment> \<open>\<open>s.split(sep)\<close> for a one-character separator; never the empty list\<close>
  "js_split sep [] = [[]]"
| "js_split sep (c # cs) =
     (if c = sep then [] # js_split sep cs
      else (case js_split sep cs of
              [] \<Rightarrow> [[c]]
            | p # ps \<Rightarrow> (c # p) # ps))"

fun js_join :: "string \<Rightarrow> string list \<Rightarrow> string" where
  \<comment> \<open>\<open>parts.join(sep)\<close>\<close>
  "js_join sep [] = []"
| "js_join sep [p] = p"
| "js_join sep (p # q # ps) = p @ sep @ js_join sep (q # ps)"

definition starts_with :: "string \<Rightarrow> string \<Rightarrow> bool" where
  "starts_with p s = (take (length p) s = p)"

fun js_includes :: "string \<Rightarrow> string \<Rightarrow> bool" where
  \<comment> \<open>\<open>s.includes(p)\<close>: \<open>p\<close> occurs in \<open>s\<close>\<close>
  "js_includes p [] = (p = [])"
| "js_includes p (c # cs) = (starts_with p (c # cs) \<or> js_includes p cs)"

fun js_replace_first :: "string \<Rightarrow> string \<Rightarrow> string" where
  \<comment> \<open>\<open>s.replace(/p/, '')\<close> for a literal, non-empty \<open>p\<close>: the first occurrence goes\<close>
  "js_replace_first p [] = []"
| "js_replace_first p (c # cs) =
     (if starts_with p (c # cs) then drop (length p) (c # cs)
      else c # js_replace_first p cs)"

definition lower_char :: "char \<Rightarrow> char" where
  "lower_char c =
     (let n = (of_char c :: int) in
      if (65 \<le> n \<and> n \<le> 90) \<or> (192 \<le> n \<and> n \<le> 222 \<and> n \<noteq> 215)
      then char_of (n + 32) else c)"

definition js_toLowerCase :: "string \<Rightarrow> string" where
  "js_toLowerCase s = map lower_char s"

fun str_less :: "string \<Rightarrow> string \<Rightarrow> bool" where
  \<comment> \<open>\<open>a < b\<close> on strings: by code units, a proper prefix first\<close>
  "str_less [] [] = False"
| "str_less [] (b # bs) = True"
| "str_less (a # as) [] = False"
| "str_less (a # as) (b # bs) =
     (if a = b then str_less as bs else (of_char a :: int) < of_char b)"

definition digit_value :: "char \<Rightarrow> int" where
  "digit_value c = (of_char c :: int) - 48"

definition decimal_value :: "string \<Rightarrow> int" where
  \<comment> \<open>the number a string of digits denotes\<close>
  "decimal_value ds = foldl (\<lambda>a c. 10 * a + digit_value c) 0 ds"

function decimal_string :: "int \<Rightarrow> string" where
  \<comment> \<open>how a non-negative integer below \<open>10^21\<close> prints\<close>
  "decimal_string n =
     (if n < 10 then [char_of (48 + n)]
      else decimal_string (n div 10) @ [char_of (48 + n mod 10)])"
  by pat_completeness auto
termination
  by (relation "measure nat") auto

function bit_length :: "int \<Rightarrow> nat" where
  "bit_length n = (if n \<le> 0 then 0 else Suc (bit_length (n div 2)))"
  by pat_completeness auto
termination
  by (relation "measure nat") auto

definition to_double :: "int \<Rightarrow> int" where
  \<comment> \<open>unary \<open>+\<close> on a string of digits: the nearest double, ties to even; exact below
      \<open>2^53\<close>. The strings met here have at most 256 digits, so the result is finite.\<close>
  "to_double n =
     (if n < 2 ^ 53 then n
      else let e = bit_length n - 53; q = n div 2 ^ e; r = n mod 2 ^ e; h = 2 ^ (e - 1)
           in if h < r \<or> (r = h \<and> odd q) then (q + 1) * 2 ^ e else q * 2 ^ e)"

section \<open>The version library\<close>

text \<open>
  The program imports the package \<open>semver\<close> and calls \<open>clean\<close>, \<open>compare\<close>,
  \<open>prerelease\<close> and \<open>inc\<close>. The package is not part of the repository; its functions are
  modelled here after node-semver 7 (\<open>classes/semver.js\<close>, \<open>internal/re.js\<close>,
  \<open>internal/identifiers.js\<close>), strict mode, which is what the program uses. The
  releases of the package differ in details: whether \<open>parse\<close> trims its argument,
  whether \<open>inc\<close> checks the identifier of a prerelease increment, the release type
  \<open>release\<close>. The model follows release 7.7. A number of the package is a double; the
  model keeps integers and rounds where the package converts a string of digits that may
  exceed \<open>2^53\<close>.
\<close>

definition MAX_LENGTH :: nat where
  "MAX_LENGTH = 256"

definition MAX_SAFE_INTEGER :: int where
  "MAX_SAFE_INTEGER = 9007199254740991"

definition MAX_SAFE_BUILD_LENGTH :: nat where
  "MAX_SAFE_BUILD_LENGTH = 250"

datatype pre_id = Num int | Str string
  \<comment> \<open>an entry of \<open>SemVer.prerelease\<close>: a number or a string\<close>

record SemVer =
  major :: int
  minor :: int
  patch :: int
  prerelease :: "pre_id list"
  build :: "string list"

definition is_ldn :: "char \<Rightarrow> bool" where
  \<comment> \<open>\<open>LETTERDASHNUMBER\<close>, the class \<open>[a-zA-Z0-9-]\<close>\<close>
  "is_ldn c = (is_letter c \<or> is_digit c \<or> c = CHR ''-'')"

definition numeric_identifier :: "string \<Rightarrow> bool" where
  \<comment> \<open>Modelled from the spec: \<open>NUMERICIDENTIFIER\<close>, \<open>0|[1-9]\d*\<close>, of the package's
      \<open>internal/re.js\<close>, which is not in the repository; the package bounds the star
      by \<open>{0,256}\<close>.\<close>
  "numeric_identifier s =
     (s = ''0'' \<or> (s \<noteq> [] \<and> list_all is_digit s \<and> hd s \<noteq> CHR ''0''
                  \<and> length s \<le> Suc MAX_LENGTH))"

definition nonnumeric_identifier :: "string \<Rightarrow> bool" where
  \<comment> \<open>Modelled from the spec: \<open>NONNUMERICIDENTIFIER\<close>, \<open>\d*[a-zA-Z-][a-zA-Z0-9-]*\<close>, with
      the bounds \<open>{0,256}\<close> and \<open>{0,250}\<close> the package puts on the two stars.\<close>
  "nonnumeric_identifier s =
     (list_all is_ldn s \<and> length (takeWhile is_digit s) \<le> MAX_LENGTH \<and>
      (case dropWhile is_digit s of
         [] \<Rightarrow> False
       | c # t \<Rightarrow> length t \<le> MAX_SAFE_BUILD_LENGTH))"

definition prerelease_identifier :: "string \<Rightarrow> bool" where
  \<comment> \<open>Modelled from the spec: \<open>PRERELEASEIDENTIFIER\<close> of the package.\<close>
  "prerelease_identifier s = (nonnumeric_identifier s \<or> numeric_identifier s)"

definition build_identifier :: "string \<Rightarrow> bool" where
  \<comment> \<open>Modelled from the spec: \<open>BUILDIDENTIFIER\<close>, \<open>[a-zA-Z0-9-]+\<close> with the package's bound.\<close>
  "build_identifier s = (s \<noteq> [] \<and> list_all is_ldn s \<and> length s \<le> MAX_SAFE_BUILD_LENGTH)"

definition numberify :: "string \<Rightarrow> pre_id" where
  \<comment> \<open>Modelled from the spec: the constructor's "numberify any prerelease numeric ids".\<close>
  "numberify x =
     (if x \<noteq> [] \<and> list_all is_digit x \<and> to_double (decimal_value x) < MAX_SAFE_INTEGER
      then Num (decimal_value x) else Str x)"

definition match_tail :: "string \<Rightarrow> (string option \<times> string option) option" where
  \<comment> \<open>Modelled from the spec: the end of the package's regular expression \<open>FULL\<close>,
      \<open>(?:-(PRE))?(?:\+(BUILD))?$\<close>, matched against what follows the main version; its
      two groups. A prerelease holds no \<open>+\<close>, so it ends at the first one.\<close>
  "match_tail r3 =
     (let pre = (case r3 of
                   c # t \<Rightarrow> if c = CHR ''-''
                             then Some (takeWhile (\<lambda>x. x \<noteq> CHR ''+'') t) else None
                 | [] \<Rightarrow> None);
          r4 = (case r3 of
                  c # t \<Rightarrow> if c = CHR ''-''
                            then dropWhile (\<lambda>x. x \<noteq> CHR ''+'') t else r3
                | [] \<Rightarrow> r3);
          bld = (case r4 of c # t \<Rightarrow> Some t | [] \<Rightarrow> None)
      in if (case pre of None \<Rightarrow> True
             | Some p \<Rightarrow> list_all prerelease_identifier (js_split CHR ''.'' p))
            \<and> (case r4 of [] \<Rightarrow> True | c # t \<Rightarrow> c = CHR ''+'')
            \<and> (case bld of None \<Rightarrow> True
                 | Some b \<Rightarrow> list_all build_identifier (js_split CHR ''.'' b))
         then Some (pre, bld) else None)"

definition strip_v :: "string \<Rightarrow> string" where
  \<comment> \<open>the \<open>v?\<close> at the start of \<open>FULL\<close>: a main version starts with a digit, so a leading
      \<open>v\<close> can only be matched by it\<close>
  "strip_v s = (case s of c # t \<Rightarrow> if c = CHR ''v'' then t else s | [] \<Rightarrow> s)"

definition match_FULL :: "string \<Rightarrow> (string \<times> string \<times> string \<times> string option \<times> string option) option" where
  \<comment> \<open>Modelled from the spec: a match of the package's regular expression \<open>FULL\<close>,
      \<open>^v?(MAIN)\.(MAIN)\.(MAIN)(?:-(PRE))?(?:\+(BUILD))?$\<close>, with its five groups. Each
      \<open>MAIN\<close> is a run of digits that ends at the next character.\<close>
  "match_FULL s =
     (case dropWhile is_digit (strip_v s) of
        [] \<Rightarrow> None
      | d1 # t1 \<Rightarrow>
          (case dropWhile is_digit t1 of
             [] \<Rightarrow> None
           | d2 # t2 \<Rightarrow>
               (case match_tail (dropWhile is_digit t2) of
                  None \<Rightarrow> None
                | Some (pre, bld) \<Rightarrow>
                    if d1 = CHR ''.'' \<and> d2 = CHR ''.''
                       \<and> numeric_identifier (takeWhile is_digit (strip_v s))
                       \<and> numeric_identifier (takeWhile is_digit t1)
                       \<and> numeric_identifier (takeWhile is_digit t2)
                    then Some (takeWhile is_digit (strip_v s), takeWhile is_digit t1,
                               takeWhile is_digit t2, pre, bld)
                    else None)))"

definition new_SemVer :: "string \<Rightarrow> SemVer option" where
  \<comment> \<open>Modelled from the spec: the constructor \<open>new SemVer(version)\<close> of the package;
      \<open>None\<close> where it throws a \<open>TypeError\<close>.\<close>
  "new_SemVer version =
     (if MAX_LENGTH < length version then None
      else case match_FULL (js_trim version) of
             None \<Rightarrow> None
           | Some (m1, m2, m3, m4, m5) \<Rightarrow>
               if MAX_SAFE_INTEGER < to_double (decimal_value m1)
                  \<or> MAX_SAFE_INTEGER < to_double (decimal_value m2)
                  \<or> MAX_SAFE_INTEGER < to_double (decimal_value m3) then None
               else Some \<lparr> major = decimal_value m1, minor = decimal_value m2,
                           patch = decimal_value m3,
                           prerelease = (case m4 of None \<Rightarrow> []
                                         | Some p \<Rightarrow> if p = [] then []
                                                     else map numberify (js_split CHR ''.'' p)),
                           build = (case m5 of None \<Rightarrow> []
                                    | Some b \<Rightarrow> if b = [] then [] else js_split CHR ''.'' b) \<rparr>)"

definition identifier_string :: "pre_id \<Rightarrow> string" where
  \<comment> \<open>how an entry of \<open>prerelease\<close> prints inside \<open>join\<close>\<close>
  "identifier_string i = (case i of Num n \<Rightarrow> decimal_string n | Str s \<Rightarrow> s)"

definition format :: "SemVer \<Rightarrow> string" where
  \<comment> \<open>Modelled from the spec: \<open>SemVer.format\<close>, the value of the field \<open>version\<close>.\<close>
  "format v =
     decimal_string (major v) @ ''.'' @ decimal_string (minor v) @ ''.'' @ decimal_string (patch v)
     @ (if prerelease v = [] then []
        else ''-'' @ js_join ''.'' (map identifier_string (prerelease v)))"

definition parse :: "string \<Rightarrow> SemVer option" where
  \<comment> \<open>Modelled from the spec: \<open>functions/parse.js\<close>, the constructor with its error caught.\<close>
  "parse version = new_SemVer version"

definition clean :: "string \<Rightarrow> string option" where
  \<comment> \<open>Modelled from the spec: \<open>semver.clean\<close>, which trims, strips \<open>/^[=v]+/\<close> and parses.\<close>
  "clean version =
     map_option format
       (parse (dropWhile (\<lambda>c. c = CHR ''='' \<or> c = CHR ''v'') (js_trim version)))"

definition semver_prerelease :: "string \<Rightarrow> pre_id list option" where
  \<comment> \<open>Modelled from the spec: \<open>semver.prerelease\<close>; \<open>None\<close> is its \<open>null\<close>.\<close>
  "semver_prerelease version =
     (case parse version of
        None \<Rightarrow> None
      | Some parsed \<Rightarrow> if prerelease parsed = [] then None else Some (prerelease parsed))"

definition id_numeric :: "pre_id \<Rightarrow> bool" where
  \<comment> \<open>\<open>/^[0-9]+$/.test(a)\<close>, a number being tested through its decimal print\<close>
  "id_numeric a = (case a of Num n \<Rightarrow> True | Str s \<Rightarrow> s \<noteq> [] \<and> list_all is_digit s)"

definition id_number :: "pre_id \<Rightarrow> int" where
  \<comment> \<open>\<open>+a\<close> for an identifier that passed \<open>id_numeric\<close>\<close>
  "id_number a = (case a of Num n \<Rightarrow> n | Str s \<Rightarrow> to_double (decimal_value s))"

definition id_text :: "pre_id \<Rightarrow> string" where
  "id_text a = (case a of Num n \<Rightarrow> decimal_string n | Str s \<Rightarrow> s)"

definition compareIdentifiers :: "pre_id \<Rightarrow> pre_id \<Rightarrow> int" where
  \<comment> \<open>Modelled from the spec: \<open>compareIdentifiers\<close> of the package's
      \<open>internal/identifiers.js\<close>.\<close>
  "compareIdentifiers a b =
     (let anum = id_numeric a; bnum = id_numeric b
      in if anum \<and> bnum
         then (if id_number a = id_number b then 0
               else if id_number a < id_number b then - 1 else 1)
         else if a = b then 0
         else if anum \<and> \<not> bnum then - 1
         else if bnum \<and> \<not> anum then 1
         else if str_less (id_text a) (id_text b) then - 1
         else 1)"

definition compareMain :: "SemVer \<Rightarrow> SemVer \<Rightarrow> int" where
  \<comment> \<open>Modelled from the spec: \<open>SemVer.compareMain\<close>; JavaScript's \<open>||\<close> takes the first
      operand that is not zero.\<close>
  "compareMain x y =
     (if compareIdentifiers (Num (major x)) (Num (major y)) \<noteq> 0
      then compareIdentifiers (Num (major x)) (Num (major y))
      else if compareIdentifiers (Num (minor x)) (Num (minor y)) \<noteq> 0
      then compareIdentifiers (Num (minor x)) (Num (minor y))
      else compareIdentifiers (Num (patch x)) (Num (patch y)))"

fun comparePre_loop :: "pre_id list \<Rightarrow> pre_id list \<Rightarrow> int" where
  \<comment> \<open>the \<open>do ... while (++i)\<close> of \<open>SemVer.comparePre\<close>\<close>
  "comparePre_loop [] [] = 0"
| "comparePre_loop (a # as) [] = 1"
| "comparePre_loop [] (b # bs) = - 1"
| "comparePre_loop (a # as) (b # bs) =
     (if a = b then comparePre_loop as bs else compareIdentifiers a b)"

definition comparePre :: "SemVer \<Rightarrow> SemVer \<Rightarrow> int" where
  \<comment> \<open>Modelled from the spec: \<open>SemVer.comparePre\<close>; having no prerelease is greater than
      having one.\<close>
  "comparePre x y =
     (if prerelease x \<noteq> [] \<and> prerelease y = [] then - 1
      else if prerelease x = [] \<and> prerelease y \<noteq> [] then 1
      else if prerelease x = [] \<and> prerelease y = [] then 0
      else comparePre_loop (prerelease x) (prerelease y))"

definition SemVer_compare :: "SemVer \<Rightarrow> SemVer \<Rightarrow> int" where
  \<comment> \<open>Modelled from the spec: \<open>SemVer.compare\<close>.\<close>
  "SemVer_compare x y =
     (if format y = format x then 0
      else if compareMain x y \<noteq> 0 then compareMain x y
      else comparePre x y)"

definition semver_compare :: "string \<Rightarrow> string \<Rightarrow> string + int" where
  \<comment> \<open>Modelled from the spec: \<open>semver.compare(a, b)\<close>, which builds both versions and
      throws a \<open>TypeError\<close> on a string that is not a version.\<close>
  "semver_compare a b =
     (case new_SemVer a of
        None \<Rightarrow> Inl (''Invalid Version: '' @ a)
      | Some x \<Rightarrow>
          (case new_SemVer b of
             None \<Rightarrow> Inl (''Invalid Version: '' @ b)
           | Some y \<Rightarrow> Inr (SemVer_compare x y)))"

fun increment_first_number :: "pre_id list \<Rightarrow> pre_id list option" where
  "increment_first_number [] = None"
| "increment_first_number (Num n # xs) = Some (Num (n + 1) # xs)"
| "increment_first_number (Str s # xs) = map_option (Cons (Str s)) (increment_first_number xs)"

definition increment_last_number :: "pre_id list \<Rightarrow> pre_id list option" where
  \<comment> \<open>the \<open>while (--i >= 0)\<close> of the case \<open>'pre'\<close>: the last entry that is a number is
      incremented; \<open>None\<close> when no entry is a number (\<open>i === -1\<close>)\<close>
  "increment_last_number xs = map_option rev (increment_first_number (rev xs))"

definition decimal_literal :: "string \<Rightarrow> bool" where
  \<comment> \<open>digits, then an optional exponent part \<open>[eE]-?digits\<close> (no \<open>+\<close> or \<open>.\<close> can occur
      in a prerelease identifier)\<close>
  "decimal_literal s =
     (takeWhile is_digit s \<noteq> [] \<and>
      (case dropWhile is_digit s of
         [] \<Rightarrow> True
       | c # t \<Rightarrow> (c = CHR ''e'' \<or> c = CHR ''E'') \<and>
                  (let d = (case t of m # u \<Rightarrow> if m = CHR ''-'' then u else t | [] \<Rightarrow> t)
                   in d \<noteq> [] \<and> list_all is_digit d)))"

definition radix_literal :: "string \<Rightarrow> bool" where
  \<comment> \<open>\<open>0x\<close>, \<open>0o\<close> and \<open>0b\<close> literals, which \<open>Number\<close> reads\<close>
  "radix_literal s =
     (case s of
        z # r # ds \<Rightarrow>
          z = CHR ''0'' \<and> ds \<noteq> [] \<and>
          (if r = CHR ''x'' \<or> r = CHR ''X''
           then list_all (\<lambda>c. c \<in> set ''0123456789abcdefABCDEF'') ds
           else if r = CHR ''o'' \<or> r = CHR ''O'' then list_all (\<lambda>c. c \<in> set ''01234567'') ds
           else if r = CHR ''b'' \<or> r = CHR ''B'' then list_all (\<lambda>c. c \<in> set ''01'') ds
           else False)
      | _ \<Rightarrow> False)"

definition js_isNaN :: "pre_id option \<Rightarrow> bool" where
  \<comment> \<open>\<open>isNaN(x)\<close> for \<open>x\<close> an entry of \<open>prerelease\<close> or \<open>undefined\<close>: a string is read by
      \<open>Number\<close>, which accepts the numeric literals\<close>
  "js_isNaN x =
     (case x of
        None \<Rightarrow> True
      | Some (Num n) \<Rightarrow> False
      | Some (Str s) \<Rightarrow>
          (let u = (case s of m # t \<Rightarrow> if m = CHR ''-'' then t else s | [] \<Rightarrow> s)
           in \<not> (s = [] \<or> u = ''Infinity'' \<or> decimal_literal u \<or> radix_literal s)))"

definition inc_pre :: "string option \<Rightarrow> SemVer \<Rightarrow> SemVer" where
  \<comment> \<open>Modelled from the spec: the case \<open>'pre'\<close> of \<open>SemVer.inc\<close>, with \<open>identifierBase\<close>
      undefined, so that \<open>base\<close> is 0 and nothing is thrown.\<close>
  "inc_pre identifier v =
     (let p = (if prerelease v = [] then [Num 0]
               else (case increment_last_number (prerelease v) of
                       Some q \<Rightarrow> q
                     | None \<Rightarrow> prerelease v @ [Num 0]))
      in case identifier of
           None \<Rightarrow> v\<lparr>prerelease := p\<rparr>
         | Some i \<Rightarrow>
             if i = [] then v\<lparr>prerelease := p\<rparr>
             else if compareIdentifiers (hd p) (Str i) = 0
             then (if js_isNaN (if 1 < length p then Some (p ! 1) else None)
                   then v\<lparr>prerelease := [Str i, Num 0]\<rparr>
                   else v\<lparr>prerelease := p\<rparr>)
             else v\<lparr>prerelease := [Str i, Num 0]\<rparr>)"

definition inc_patch :: "SemVer \<Rightarrow> SemVer" where
  \<comment> \<open>Modelled from the spec: the case \<open>'patch'\<close> of \<open>SemVer.inc\<close>.\<close>
  "inc_patch v =
     (if prerelease v = [] then v\<lparr>patch := patch v + 1, prerelease := []\<rparr>
      else v\<lparr>prerelease := []\<rparr>)"

definition SemVer_inc :: "string \<Rightarrow> string option \<Rightarrow> SemVer \<Rightarrow> SemVer option" where
  \<comment> \<open>Modelled from the spec: \<open>SemVer.inc(release, identifier)\<close>; \<open>None\<close> where it throws.\<close>
  "SemVer_inc release identifier v =
     (if starts_with ''pre'' release
         \<and> (case identifier of
               None \<Rightarrow> False
             | Some i \<Rightarrow> i \<noteq> [] \<and> \<not> list_all prerelease_identifier (js_split CHR ''.'' i))
      then None
      else if release = ''premajor''
      then Some (inc_pre identifier
                   (v\<lparr>prerelease := [], patch := 0, minor := 0, major := major v + 1\<rparr>))
      else if release = ''preminor''
      then Some (inc_pre identifier (v\<lparr>prerelease := [], patch := 0, minor := minor v + 1\<rparr>))
      else if release = ''prepatch''
      then Some (inc_pre identifier (inc_patch (v\<lparr>prerelease := []\<rparr>)))
      else if release = ''prerelease''
      then Some (inc_pre identifier (if prerelease v = [] then inc_patch v else v))
      else if release = ''release''
      then (if prerelease v = [] then None else Some (v\<lparr>prerelease := []\<rparr>))
      else if release = ''major''
      then Some (if minor v \<noteq> 0 \<or> patch v \<noteq> 0 \<or> prerelease v = []
                 then v\<lparr>major := major v + 1, minor := 0, patch := 0, prerelease := []\<rparr>
                 else v\<lparr>minor := 0, patch := 0, prerelease := []\<rparr>)
      else if release = ''minor''
      then Some (if patch v \<noteq> 0 \<or> prerelease v = []
                 then v\<lparr>minor := minor v + 1, patch := 0, prerelease := []\<rparr>
                 else v\<lparr>patch := 0, prerelease := []\<rparr>)
      else if release = ''patch'' then Some (inc_patch v)
      else if release = ''pre'' then Some (inc_pre identifier v)
      else None)"

definition semver_inc :: "string option \<Rightarrow> string \<Rightarrow> string option \<Rightarrow> string option" where
  \<comment> \<open>Modelled from the spec: \<open>semver.inc(version, release, identifier)\<close>, which returns
      \<open>null\<close> (here \<open>None\<close>) when the version does not parse or the increment throws. The
      version is an option because the program passes the result of \<open>clean\<close>.\<close>
  "semver_inc version release identifier =
     (case version of
        None \<Rightarrow> None
      | Some s \<Rightarrow>
          (case new_SemVer s of
             None \<Rightarrow> None
           | Some v \<Rightarrow> map_option format (SemVer_inc release identifier v)))"

section \<open>Regular expressions\<close>

text \<open>
  The regular expressions that \<open>checkMessages\<close> builds are fixed; each is written out as
  the search it performs. A marker \<open>#wip\b\<close> is the text \<open>#wip\<close> followed by a word
  boundary: the marker ends in a word character, so the next character, if any, is none.
\<close>

definition word_boundary_after_word :: "string \<Rightarrow> bool" where
  \<comment> \<open>\<open>\b\<close> right after a word character, the rest of the subject given\<close>
  "word_boundary_after_word rest = (case rest of [] \<Rightarrow> True | c # t \<Rightarrow> \<not> is_word c)"

fun marker_test :: "string \<Rightarrow> string \<Rightarrow> bool" where
  \<comment> \<open>\<open>new RegExp(m + '\\b').test(s)\<close> for a marker \<open>m\<close> that ends in a word character\<close>
  "marker_test m [] = False"
| "marker_test m (c # cs) =
     ((starts_with m (c # cs) \<and> word_boundary_after_word (drop (length m) (c # cs)))
      \<or> marker_test m cs)"

definition wip :: "string \<Rightarrow> bool" where
  "wip message = marker_test ''#wip'' message"

definition major_re :: "string \<Rightarrow> bool" where
  "major_re message = marker_test ''#major'' message"

definition minor_re :: "string \<Rightarrow> bool" where
  "minor_re message = marker_test ''#minor'' message"

definition patch_re :: "string \<Rightarrow> bool" where
  "patch_re message = marker_test ''#patch'' message"

definition fix_here :: "string \<Rightarrow> string option" where
  \<comment> \<open>\<open>fix(?:es)? #\<close> matched at the start of the subject: what follows it\<close>
  "fix_here s =
     (if starts_with ''fix #'' s then Some (drop 5 s)
      else if starts_with ''fixes #'' s then Some (drop 7 s)
      else None)"

fun fix_re :: "string \<Rightarrow> bool" where
  \<comment> \<open>\<open>new RegExp('fix(?:es)? #\\d+').test(s)\<close>\<close>
  "fix_re [] = False"
| "fix_re (c # cs) =
     ((case fix_here (c # cs) of
         None \<Rightarrow> False
       | Some rest \<Rightarrow> takeWhile is_digit rest \<noteq> [])
      \<or> fix_re cs)"

fun matcher_exec :: "string \<Rightarrow> string option" where
  \<comment> \<open>\<open>/fix(?:es)? #(\d+)\b/.exec(s)\<close>: group 1 of the leftmost match. The digits are
      followed by a word boundary only when the whole run of digits is taken and no word
      character follows it.\<close>
  "matcher_exec [] = None"
| "matcher_exec (c # cs) =
     (case fix_here (c # cs) of
        None \<Rightarrow> matcher_exec cs
      | Some rest \<Rightarrow>
          if takeWhile is_digit rest \<noteq> [] \<and> word_boundary_after_word (dropWhile is_digit rest)
          then Some (takeWhile is_digit rest)
          else matcher_exec cs)"

definition positive_number :: "string \<Rightarrow> bool" where
  \<comment> \<open>\<open>Number(d) > 0\<close> for a string of digits: some digit is not zero\<close>
  "positive_number d = list_ex (\<lambda>c. c \<noteq> CHR ''0'') d"

text \<open>
  \<open>isReleaseBranch\<close> compiles patterns that come from the configuration. A pattern without
  any of the syntax characters of regular expressions matches where it occurs in the
  subject; every other pattern is left to a parameter, the engine, which answers \<open>None\<close>
  where the constructor \<open>RegExp\<close> throws a \<open>SyntaxError\<close>.
\<close>

type_synonym regexp_engine = "string \<Rightarrow> (string \<Rightarrow> bool) option"

definition syntax_character :: "char \<Rightarrow> bool" where
  "syntax_character c = (c \<in> set (CHR 0x5C # ''^$.*+?()[]{}|''))"

definition RegExp :: "regexp_engine \<Rightarrow> string \<Rightarrow> (string \<Rightarrow> bool) option" where
  \<comment> \<open>\<open>new RegExp(pattern)\<close>, as the function \<open>test\<close> of the object it builds\<close>
  "RegExp engine pattern =
     (if list_ex syntax_character pattern then engine pattern
      else Some (js_includes pattern))"

section \<open>The remote repository and the run's inputs\<close>

record tag =
  tag_name :: string
  tag_commit_sha :: string

record git_ref =
  ref_ref :: string
  ref_object_sha :: string

record commit =
  commit_sha :: string
  commit_message :: string

datatype label = LabelString string | LabelObject "string option"
  \<comment> \<open>an entry of \<open>issue.labels\<close>: a string, or an object whose \<open>name\<close> may be missing\<close>

record issue =
  issue_labels :: "label list"

text \<open>
  The calls to the remote API, as one snapshot of the repository for the run: \<open>Inl\<close> is a
  rejected call with its message. \<open>issues_get\<close> is keyed by the digits found in the commit
  message, standing for \<open>issue_number: Number(digits)\<close>; its answer's \<open>data\<close> may be missing.
\<close>

record remote =
  listTags :: "string + tag list"
  listMatchingRefs :: "string \<Rightarrow> string + git_ref list"
  listCommits :: "string \<Rightarrow> string + commit list"
  issues_get :: "string \<Rightarrow> string + issue option"
  createRef :: "string \<Rightarrow> string \<Rightarrow> string option"

record repository =
  owner_login :: "string option"
  repo_name :: "string option"

record github_context =
  payload_repository :: "repository option"
  context_ref :: string

text \<open>The values \<open>core.getInput\<close> returns, an unset input being the empty string.\<close>

record inputs =
  github_token :: string
  dry_run :: string
  bump :: string
  branch :: string
  release_branch :: string
  with_v :: string
  tag_input :: string
  issue_labels_input :: string

datatype effect = is_SetOutput: SetOutput string string | is_CreateRef: CreateRef string string
  \<comment> \<open>what a run does besides reading: \<open>core.setOutput(name, value)\<close> and the call
      \<open>git.createRef\<close> with its \<open>ref\<close> and \<open>sha\<close>\<close>

datatype outcome = Success | Failed string | Uncaught string
  \<comment> \<open>how the process ends: \<open>Failed\<close> is \<open>core.setFailed(message)\<close>, \<open>Uncaught\<close> an
      exception that no handler caught\<close>

section \<open>The program\<close>

definition checkTag :: "remote \<Rightarrow> string \<Rightarrow> string + bool" where
  "checkTag rem tagName =
     (case listTags rem of
        Inl e \<Rightarrow> Inl e
      | Inr data \<Rightarrow> Inr (filter (\<lambda>t. tag_name t = tagName) data \<noteq> []))"

fun insert_sorted :: "('a \<Rightarrow> 'a \<Rightarrow> string + int) \<Rightarrow> 'a \<Rightarrow> 'a list \<Rightarrow> string + 'a list" where
  "insert_sorted cmp x [] = Inr [x]"
| "insert_sorted cmp x (y # ys) =
     (case cmp x y of
        Inl e \<Rightarrow> Inl e
      | Inr c \<Rightarrow>
          if c < 0 then Inr (x # y # ys)
          else (case insert_sorted cmp x ys of
                  Inl e \<Rightarrow> Inl e
                | Inr zs \<Rightarrow> Inr (y # zs)))"

fun sort_from :: "('a \<Rightarrow> 'a \<Rightarrow> string + int) \<Rightarrow> 'a list \<Rightarrow> 'a list \<Rightarrow> string + 'a list" where
  "sort_from cmp acc [] = Inr acc"
| "sort_from cmp acc (x # xs) =
     (case insert_sorted cmp x acc of
        Inl e \<Rightarrow> Inl e
      | Inr acc' \<Rightarrow> sort_from cmp acc' xs)"

definition js_sort :: "('a \<Rightarrow> 'a \<Rightarrow> string + int) \<Rightarrow> 'a list \<Rightarrow> string + 'a list" where
  \<comment> \<open>\<open>Array.prototype.sort(cmp)\<close>: ascending and stable, here by insertion; a comparator
      that throws ends the sort\<close>
  "js_sort cmp xs = sort_from cmp [] xs"

definition compare_tags :: "tag \<Rightarrow> tag \<Rightarrow> string + int" where
  \<comment> \<open>the comparator \<open>(a, b) => semver.compare(semver.clean(a.name), semver.clean(b.name))\<close>\<close>
  "compare_tags a b =
     (case clean (tag_name a) of
        None \<Rightarrow> Inl ''Invalid version. Must be a string.''
      | Some x \<Rightarrow>
          (case clean (tag_name b) of
             None \<Rightarrow> Inl ''Invalid version. Must be a string.''
           | Some y \<Rightarrow> semver_compare x y))"

definition pop :: "'a list \<Rightarrow> 'a option" where
  \<comment> \<open>\<open>xs.pop()\<close>: the last element, \<open>undefined\<close> for the empty array\<close>
  "pop xs = (if xs = [] then None else Some (last xs))"

definition getLatestTag :: "remote \<Rightarrow> bool \<Rightarrow> string + tag option" where
  "getLatestTag rem boolAll =
     (case listTags rem of
        Inl e \<Rightarrow> Inl e
      | Inr data \<Rightarrow>
          (case js_sort compare_tags (filter (\<lambda>t. clean (tag_name t) \<noteq> None) data) of
             Inl e \<Rightarrow> Inl e
           | Inr allVTags \<Rightarrow>
               if boolAll then Inr (pop allVTags)
               else Inr (pop (filter (\<lambda>b. semver_prerelease (tag_name b) = None) allVTags))))"

definition loadBranch :: "remote \<Rightarrow> string \<Rightarrow> string + git_ref option" where
  "loadBranch rem branch_name =
     (case listMatchingRefs rem (''heads/'' @ branch_name) of
        Inl e \<Rightarrow> Inl e
      | Inr data \<Rightarrow> Inr (case data of [] \<Rightarrow> None | r # rs \<Rightarrow> Some r))"

fun labels_bump :: "string list \<Rightarrow> label list \<Rightarrow> string" where
  \<comment> \<open>\<open>releaseBump = 'patch'\<close> and the loop over \<open>data.labels\<close>\<close>
  "labels_bump issueTags [] = ''patch''"
| "labels_bump issueTags (LabelString s # ls) = labels_bump issueTags ls"
| "labels_bump issueTags (LabelObject n # ls) =
     (let name = (case n of None \<Rightarrow> ''empty'' | Some x \<Rightarrow> if x = [] then ''empty'' else x)
      in if name \<in> set issueTags then ''minor'' else labels_bump issueTags ls)"

fun check_loop :: "remote \<Rightarrow> string option \<Rightarrow> string list \<Rightarrow> string \<Rightarrow> commit list \<Rightarrow> string + string" where
  \<comment> \<open>the loop \<open>for (const commit of result.data)\<close> of \<open>checkMessages\<close>, the variable
      \<open>releaseBump\<close> being the fourth argument\<close>
  "check_loop rem tagSha issueTags releaseBump [] = Inr releaseBump"
| "check_loop rem tagSha issueTags releaseBump (c # cs) =
     (let message = commit_message c
      in if Some (commit_sha c) = tagSha then Inr releaseBump
         else if wip message then check_loop rem tagSha issueTags releaseBump cs
         else if major_re message then Inr ''major''
         else if minor_re message then check_loop rem tagSha issueTags ''minor'' cs
         else if releaseBump \<noteq> ''minor'' \<and> patch_re message
         then check_loop rem tagSha issueTags ''patch'' cs
         else if releaseBump \<noteq> ''minor'' \<and> fix_re message
         then (case matcher_exec message of
                 None \<Rightarrow> check_loop rem tagSha issueTags releaseBump cs
               | Some d \<Rightarrow>
                   if positive_number d
                   then (case issues_get rem d of
                           Inl e \<Rightarrow> Inl e
                         | Inr None \<Rightarrow> check_loop rem tagSha issueTags releaseBump cs
                         | Inr (Some data) \<Rightarrow>
                             check_loop rem tagSha issueTags
                               (labels_bump issueTags (issue_labels data)) cs)
                   else check_loop rem tagSha issueTags releaseBump cs)
         else check_loop rem tagSha issueTags releaseBump cs)"

definition checkMessages :: "remote \<Rightarrow> string \<Rightarrow> string option \<Rightarrow> string list \<Rightarrow> string + string" where
  "checkMessages rem branchHeadSha tagSha issueTags =
     (case listCommits rem branchHeadSha of
        Inl e \<Rightarrow> Inl e
      | Inr data \<Rightarrow> check_loop rem tagSha issueTags ''none'' data)"

fun isReleaseBranch_loop :: "regexp_engine \<Rightarrow> string \<Rightarrow> string list \<Rightarrow> string + bool" where
  "isReleaseBranch_loop engine branchName [] = Inr False"
| "isReleaseBranch_loop engine branchName (b # bs) =
     (case RegExp engine b of
        None \<Rightarrow> Inl (''Invalid regular expression: /'' @ b @ ''/'')
      | Some testBranchName \<Rightarrow>
          if testBranchName branchName then Inr True
          else isReleaseBranch_loop engine branchName bs)"

definition isReleaseBranch :: "regexp_engine \<Rightarrow> string \<Rightarrow> string \<Rightarrow> string + bool" where
  "isReleaseBranch engine branchName branchList =
     isReleaseBranch_loop engine branchName (map js_trim (js_split CHR '','' branchList))"

definition getInput :: "string \<Rightarrow> string" where
  \<comment> \<open>\<open>core.getInput(name)\<close>, given the value of the input's environment variable (the
      empty string when unset): the value trimmed\<close>
  "getInput val = js_trim val"

datatype js_value = Undefined | Null | Text string
  \<comment> \<open>the variable \<open>nextVersion\<close>: unassigned, the \<open>null\<close> of \<open>semver.inc\<close>, or a string\<close>

definition of_inc :: "string option \<Rightarrow> js_value" where
  "of_inc r = (case r of None \<Rightarrow> Null | Some v \<Rightarrow> Text v)"

definition template :: "js_value \<Rightarrow> string" where
  \<comment> \<open>how a value prints inside a template literal\<close>
  "template x = (case x of Undefined \<Rightarrow> ''undefined'' | Null \<Rightarrow> ''null'' | Text v \<Rightarrow> v)"

definition toCommandValue :: "js_value \<Rightarrow> string" where
  \<comment> \<open>how \<open>core.setOutput\<close> prints its value: nothing for \<open>null\<close> and \<open>undefined\<close>\<close>
  "toCommandValue x = (case x of Undefined \<Rightarrow> [] | Null \<Rightarrow> [] | Text v \<Rightarrow> v)"

definition resolve_branch :: "github_context \<Rightarrow> inputs \<Rightarrow> remote \<Rightarrow> string + git_ref" where
  \<comment> \<open>lines 224 to 247 of \<open>action\<close>: the forced branch, or else the branch of the event\<close>
  "resolve_branch ctx inp rem =
     (let forceBranch = getInput (branch inp)
      in if forceBranch \<noteq> []
         then (case loadBranch rem forceBranch of
                 Inl e \<Rightarrow> Inl e
               | Inr None \<Rightarrow> Inl ''unknown branch provided''
               | Inr (Some branchInfo) \<Rightarrow> Inr branchInfo)
         else (let activeBranch = js_replace_first ''refs/heads/'' (context_ref ctx)
               in case loadBranch rem activeBranch of
                    Inl e \<Rightarrow> Inl e
                  | Inr None \<Rightarrow> Inl (''failed to load branch '' @ activeBranch)
                  | Inr (Some branchInfo) \<Rightarrow> Inr branchInfo))"

definition issLabs_of :: "string \<Rightarrow> string list" where
  \<comment> \<open>lines 300 to 308 of \<open>action\<close>\<close>
  "issLabs_of issueLabels =
     (if issueLabels \<noteq> []
      then (let xlabels = map js_trim (js_split CHR '','' issueLabels)
            in if xlabels \<noteq> [] then xlabels else [''enhancement''])
      else [''enhancement''])"

definition custom_tag_step :: "remote \<Rightarrow> string \<Rightarrow> effect list \<times> (string + js_value)" where
  \<comment> \<open>lines 256 to 261 of \<open>action\<close>\<close>
  "custom_tag_step rem customTag =
     (case checkTag rem customTag of
        Inl e \<Rightarrow> ([], Inl e)
      | Inr checkTagResult \<Rightarrow>
          if checkTagResult then ([], Inl (''tag already exists '' @ customTag))
          else ([SetOutput ''new-tag'' customTag], Inr Undefined))"

definition next_version :: "string option \<Rightarrow> string \<Rightarrow> string \<Rightarrow> string \<Rightarrow> bool \<Rightarrow> js_value" where
  \<comment> \<open>the value of \<open>nextVersion\<close> after lines 296 to 331 of \<open>action\<close>, given the cleaned
      version, the branch name, the input \<open>bump\<close>, the level found in the commit messages
      and the result of \<open>isReleaseBranch\<close>\<close>
  "next_version version branchName level msgLevel is_release =
     (if is_release
      then (if msgLevel = ''none'' then of_inc (semver_inc version level None)
            else of_inc (semver_inc version msgLevel None))
      else of_inc (semver_inc version ''prerelease'' (Some branchName)))"

definition version_step :: "regexp_engine \<Rightarrow> inputs \<Rightarrow> remote \<Rightarrow> string \<Rightarrow> string \<Rightarrow> effect list \<times> (string + js_value)" where
  \<comment> \<open>lines 265 to 335 of \<open>action\<close>\<close>
  "version_step engine inp rem sha branchName =
     (case getLatestTag rem True of
        Inl e \<Rightarrow> ([], Inl e)
      | Inr latestTag \<Rightarrow>
          (case getLatestTag rem False of
             Inl e \<Rightarrow> ([], Inl e)
           | Inr latestMainTag \<Rightarrow>
               (let versionTag = (case latestTag of None \<Rightarrow> ''0.0.0'' | Some t \<Rightarrow> tag_name t);
                    out = [SetOutput ''tag'' versionTag]
                in if (case latestTag of None \<Rightarrow> False | Some t \<Rightarrow> tag_commit_sha t = sha)
                   then (out, Inl ''no new commits, avoid tagging'')
                   else (case checkMessages rem sha (map_option tag_commit_sha latestMainTag)
                                (issLabs_of (getInput (issue_labels_input inp))) of
                           Inl e \<Rightarrow> (out, Inl e)
                         | Inr msgLevel \<Rightarrow>
                             (case isReleaseBranch engine branchName
                                     (getInput (release_branch inp)) of
                                Inl e \<Rightarrow> (out, Inl e)
                              | Inr is_release \<Rightarrow>
                                  (let nextVersion =
                                         next_version (clean versionTag) branchName
                                           (getInput (bump inp)) msgLevel is_release
                                   in (out @ [SetOutput ''new-tag'' (toCommandValue nextVersion)],
                                       Inr nextVersion)))))))"

definition action :: "regexp_engine \<Rightarrow> github_context \<Rightarrow> inputs \<Rightarrow> remote \<Rightarrow> effect list \<times> (string + unit)" where
  "action engine ctx inp rem =
     (if github_token inp = [] then ([], Inl ''Input required and not supplied: github-token'')
      else if getInput (github_token inp) = []
      then ([], Inl ''Parameter token or opts.auth is required'')
      else
        (let dryRun = js_toLowerCase (getInput (dry_run inp));
             withV = (if js_toLowerCase (getInput (with_v inp)) = ''false'' then [] else ''v'');
             customTag = getInput (tag_input inp)
         in case resolve_branch ctx inp rem of
              Inl e \<Rightarrow> ([], Inl e)
            | Inr branchInfo \<Rightarrow>
                (let sha = ref_object_sha branchInfo;
                     branchName = last (js_split CHR ''/'' (ref_ref branchInfo))
                 in case (if customTag \<noteq> [] then custom_tag_step rem customTag
                          else version_step engine inp rem sha branchName) of
                      (effs, Inl e) \<Rightarrow> (effs, Inl e)
                    | (effs, Inr nextVersion) \<Rightarrow>
                        if dryRun = ''true'' then (effs, Inr ())
                        else (let newTag = withV @ template nextVersion;
                                  ref = ''refs/tags/'' @ (if customTag \<noteq> [] then customTag else newTag)
                              in (effs @ [CreateRef ref sha],
                                  (case createRef rem ref sha of
                                     Some e \<Rightarrow> Inl e
                                   | None \<Rightarrow> Inr ()))))))"

definition main :: "regexp_engine \<Rightarrow> github_context \<Rightarrow> inputs \<Rightarrow> remote \<Rightarrow> effect list \<times> outcome" where
  \<comment> \<open>the module: the two guards at its top, then \<open>action().then(...).catch(...)\<close>\<close>
  "main engine ctx inp rem =
     (case payload_repository ctx of
        None \<Rightarrow> ([], Uncaught ''Repository owner can't be null'')
      | Some repository \<Rightarrow>
          (case owner_login repository of
             None \<Rightarrow> ([], Uncaught ''Repository owner can't be null'')
           | Some owner \<Rightarrow>
               (case repo_name repository of
                  None \<Rightarrow> ([], Uncaught ''Repository name can't be null'')
                | Some repo \<Rightarrow>
                    (case action engine ctx inp rem of
                       (effs, Inl message) \<Rightarrow> (effs, Failed message)
                     | (effs, Inr u) \<Rightarrow> (effs, Success)))))"

section \<open>Notions used to state the properties\<close>

definition bump_rank :: "string \<Rightarrow> nat" where
  \<comment> \<open>the order none < patch < minor < major of the classification\<close>
  "bump_rank b =
     (if b = ''major'' then 3 else if b = ''minor'' then 2 else if b = ''patch'' then 1 else 0)"

datatype step = Stop "string + string" | Next string
  \<comment> \<open>what one iteration of the loop of \<open>checkMessages\<close> does: it ends the function
      (\<open>break\<close>, \<open>return\<close> or an exception) with a result, or goes on to the next commit
      with a value of \<open>releaseBump\<close>\<close>

definition commit_step :: "remote \<Rightarrow> string option \<Rightarrow> string list \<Rightarrow> string \<Rightarrow> commit \<Rightarrow> step" where
  \<comment> \<open>the body of the loop, for one commit; \<open>check_loop_Cons\<close> below proves that
      \<open>check_loop\<close> is its iteration\<close>
  "commit_step rem tagSha issueTags releaseBump c =
     (let message = commit_message c
      in if Some (commit_sha c) = tagSha then Stop (Inr releaseBump)
         else if wip message then Next releaseBump
         else if major_re message then Stop (Inr ''major'')
         else if minor_re message then Next ''minor''
         else if releaseBump \<noteq> ''minor'' \<and> patch_re message then Next ''patch''
         else if releaseBump \<noteq> ''minor'' \<and> fix_re message
         then (case matcher_exec message of
                 None \<Rightarrow> Next releaseBump
               | Some d \<Rightarrow>
                   if positive_number d
                   then (case issues_get rem d of
                           Inl e \<Rightarrow> Stop (Inl e)
                         | Inr None \<Rightarrow> Next releaseBump
                         | Inr (Some data) \<Rightarrow> Next (labels_bump issueTags (issue_labels data)))
                   else Next releaseBump)
         else Next releaseBump)"

definition wf_id :: "pre_id \<Rightarrow> bool" where
  \<comment> \<open>an entry of \<open>prerelease\<close> as the constructor builds it\<close>
  "wf_id i = (case i of Num n \<Rightarrow> 0 \<le> n \<and> n < MAX_SAFE_INTEGER
                       | Str x \<Rightarrow> prerelease_identifier x \<and> numberify x = Str x)"

definition wf_version :: "SemVer \<Rightarrow> bool" where
  \<comment> \<open>what holds of every version the constructor builds\<close>
  "wf_version v =
     (0 \<le> major v \<and> major v \<le> MAX_SAFE_INTEGER \<and> 0 \<le> minor v \<and> minor v \<le> MAX_SAFE_INTEGER \<and>
      0 \<le> patch v \<and> patch v \<le> MAX_SAFE_INTEGER \<and> list_all wf_id (prerelease v) \<and>
      length (format v) \<le> MAX_LENGTH)"

definition rejecting_remote :: remote where
  \<comment> \<open>a repository without tags, branches or commits whose issue service rejects every
      request; the examples below start from it\<close>
  "rejecting_remote =
     \<lparr> listTags = Inr [], listMatchingRefs = (\<lambda>r. Inr []), listCommits = (\<lambda>s. Inr []),
       issues_get = (\<lambda>d. Inl ''Not Found''), createRef = (\<lambda>r s. None) \<rparr>"

definition tagging_plan :: "regexp_engine \<Rightarrow> github_context \<Rightarrow> inputs \<Rightarrow> remote \<Rightarrow> effect list \<times> (string + string \<times> string)" where
  \<comment> \<open>what \<open>action\<close> has done when it reaches the test of \<open>dryRun\<close> (line 338): its
      effects so far and, unless it has thrown, the \<open>ref\<close> and \<open>sha\<close> it goes on to create;
      \<open>action_plan\<close> below proves that \<open>action\<close> is this followed by the write\<close>
  "tagging_plan engine ctx inp rem =
     (if github_token inp = [] then ([], Inl ''Input required and not supplied: github-token'')
      else if getInput (github_token inp) = []
      then ([], Inl ''Parameter token or opts.auth is required'')
      else
        (case resolve_branch ctx inp rem of
           Inl e \<Rightarrow> ([], Inl e)
         | Inr branchInfo \<Rightarrow>
             (case (if getInput (tag_input inp) \<noteq> []
                    then custom_tag_step rem (getInput (tag_input inp))
                    else version_step engine inp rem (ref_object_sha branchInfo)
                           (last (js_split CHR ''/'' (ref_ref branchInfo)))) of
                (effs, Inl e) \<Rightarrow> (effs, Inl e)
              | (effs, Inr nextVersion) \<Rightarrow>
                  (effs,
                   Inr (''refs/tags/'' @
                          (if getInput (tag_input inp) \<noteq> [] then getInput (tag_input inp)
                           else (if js_toLowerCase (getInput (with_v inp)) = ''false''
                                 then [] else ''v'') @ template nextVersion),
                        ref_object_sha branchInfo)))))"

definition example_inputs :: inputs where
  \<comment> \<open>a configuration for the examples: a token, the bump \<open>minor\<close>, the release branch
      \<open>main\<close>, every other input unset\<close>
  "example_inputs =
     \<lparr> github_token = ''token'', dry_run = [], bump = ''minor'', branch = [],
       release_branch = ''main'', with_v = [], tag_input = [], issue_labels_input = [] \<rparr>"

definition example_context :: "string \<Rightarrow> github_context" where
  \<comment> \<open>an event of a repository with owner and name, for the given ref\<close>
  "example_context r =
     \<lparr> payload_repository = Some \<lparr> owner_login = Some ''rbkmoney'', repo_name = Some ''action-tagger'' \<rparr>,
       context_ref = r \<rparr>"

definition no_engine :: regexp_engine where
  \<comment> \<open>an engine that rejects every pattern with syntax characters; the examples use none\<close>
  "no_engine = (\<lambda>p. None)"

definition example_remote :: "tag list \<Rightarrow> string \<Rightarrow> string \<Rightarrow> commit list \<Rightarrow> remote" where
  \<comment> \<open>a repository with the given tags, one branch (its ref and head commit) and the
      commits listed from that head; it accepts every new ref and knows no issue\<close>
  "example_remote tags branch_ref head commits =
     \<lparr> listTags = Inr tags,
       listMatchingRefs = (\<lambda>r. Inr [\<lparr>ref_ref = branch_ref, ref_object_sha = head\<rparr>]),
       listCommits = (\<lambda>s. Inr commits),
       issues_get = (\<lambda>d. Inl ''Not Found''),
       createRef = (\<lambda>r s. None) \<rparr>"

section \<open>Facts about the version library\<close>

declare decimal_string.simps [simp del]
declare bit_length.simps [simp del]

lemma digit_char_table:
  "\<forall>n\<in>set [0..9]. is_digit (char_of (48 + n)) \<and> digit_value (char_of (48 + n)) = n
      \<and> (char_of (48 + n) = CHR ''0'' \<longleftrightarrow> n = 0)"
  by code_simp

lemma digit_char:
  assumes "0 \<le> (n::int)" "n < 10"
  shows "is_digit (char_of (48 + n)) \<and> digit_value (char_of (48 + n)) = n
         \<and> (char_of (48 + n) = CHR ''0'' \<longleftrightarrow> n = 0)"
proof -
  from assms have "n \<in> set [0..9]" by simp
  with digit_char_table show ?thesis by blast
qed

lemma digit_value_table:
  "\<forall>c\<in>set ''0123456789''. 0 \<le> digit_value c \<and> digit_value c < 10
      \<and> char_of (48 + digit_value c) = c \<and> (digit_value c = 0 \<longleftrightarrow> c = CHR ''0'')"
  by code_simp

lemma digit_value_range:
  "is_digit c \<Longrightarrow> 0 \<le> digit_value c \<and> digit_value c < 10 \<and> char_of (48 + digit_value c) = c
     \<and> (digit_value c = 0 \<longleftrightarrow> c = CHR ''0'')"
  unfolding is_digit_def using digit_value_table by blast

lemma decimal_value_snoc: "decimal_value (ds @ [c]) = 10 * decimal_value ds + digit_value c"
  by (simp add: decimal_value_def)

lemma decimal_string_digits:
  "0 \<le> n \<Longrightarrow> list_all is_digit (decimal_string n) \<and> decimal_string n \<noteq> []"
proof (induction n rule: decimal_string.induct)
  case (1 n)
  show ?case
  proof (cases "n < 10")
    case True
    with 1 show ?thesis by (simp add: decimal_string.simps[of n] digit_char)
  next
    case False
    with 1 have "list_all is_digit (decimal_string (n div 10))" by simp
    moreover have "is_digit (char_of (48 + n mod 10))" by (simp add: digit_char)
    ultimately show ?thesis using False by (simp add: decimal_string.simps[of n])
  qed
qed

lemma decimal_value_string: "0 \<le> n \<Longrightarrow> decimal_value (decimal_string n) = n"
proof (induction n rule: decimal_string.induct)
  case (1 n)
  show ?case
  proof (cases "n < 10")
    case True
    with 1 show ?thesis
      by (simp add: decimal_string.simps[of n] decimal_value_def digit_char)
  next
    case False
    with 1 have "decimal_value (decimal_string (n div 10)) = n div 10" by simp
    moreover have "digit_value (char_of (48 + n mod 10)) = n mod 10" by (simp add: digit_char)
    ultimately show ?thesis using False
      by (simp add: decimal_string.simps[of n] decimal_value_snoc)
  qed
qed

lemma decimal_string_hd: "0 < n \<Longrightarrow> hd (decimal_string n) \<noteq> CHR ''0''"
proof (induction n rule: decimal_string.induct)
  case (1 n)
  show ?case
  proof (cases "n < 10")
    case True
    with 1 show ?thesis by (simp add: decimal_string.simps[of n] digit_char)
  next
    case False
    with 1 have "hd (decimal_string (n div 10)) \<noteq> CHR ''0''" by simp
    moreover have "decimal_string (n div 10) \<noteq> []"
      using False decimal_string_digits[of "n div 10"] by simp
    ultimately show ?thesis using False by (simp add: decimal_string.simps[of n])
  qed
qed

lemma decimal_string_length:
  "0 \<le> n \<Longrightarrow> n < 10 ^ k \<Longrightarrow> 0 < k \<Longrightarrow> length (decimal_string n) \<le> k"
proof (induction n arbitrary: k rule: decimal_string.induct)
  case (1 n)
  show ?case
  proof (cases "n < 10")
    case True
    with 1 show ?thesis by (simp add: decimal_string.simps[of n])
  next
    case False
    obtain j where k: "k = Suc j" using 1(4) by (cases k) auto
    have "0 < j"
    proof (rule ccontr)
      assume "\<not> 0 < j"
      with k 1(3) False show False by simp
    qed
    moreover have "n div 10 < 10 ^ j" using 1(3) k by simp
    ultimately have "length (decimal_string (n div 10)) \<le> j"
      using 1(1)[OF False, of j] 1(2) by simp
    then show ?thesis using False k by (simp add: decimal_string.simps[of n])
  qed
qed

lemma decimal_string_zero: "decimal_string 0 = ''0''"
  by code_simp


lemma numeric_identifier_roundtrip:
  "m \<noteq> [] \<Longrightarrow> list_all is_digit m \<Longrightarrow> hd m \<noteq> CHR ''0'' \<Longrightarrow>
   decimal_string (decimal_value m) = m \<and> 1 \<le> decimal_value m"
proof (induction m rule: rev_induct)
  case Nil
  then show ?case by simp
next
  case (snoc c ms)
  from snoc.prems have c: "is_digit c" by simp
  show ?case
  proof (cases "ms = []")
    case True
    with snoc.prems have "c \<noteq> CHR ''0''" by simp
    with c digit_value_range[of c] have "1 \<le> digit_value c" "digit_value c < 10"
      "char_of (48 + digit_value c) = c" by auto
    with True show ?thesis
      by (simp add: decimal_value_def decimal_string.simps[of "digit_value c"])
  next
    case False
    with snoc have ih: "decimal_string (decimal_value ms) = ms" "1 \<le> decimal_value ms"
      by simp_all
    from c digit_value_range[of c] have d: "0 \<le> digit_value c" "digit_value c < 10"
      "char_of (48 + digit_value c) = c" by auto
    have v: "decimal_value (ms @ [c]) = 10 * decimal_value ms + digit_value c"
      by (rule decimal_value_snoc)
    have "\<not> 10 * decimal_value ms + digit_value c < 10" using ih(2) d(1) by simp
    moreover have "(10 * decimal_value ms + digit_value c) div 10 = decimal_value ms"
      using d by simp
    moreover have "(10 * decimal_value ms + digit_value c) mod 10 = digit_value c"
      using d by simp
    ultimately have "decimal_string (10 * decimal_value ms + digit_value c) = ms @ [c]"
      using ih(1) d(3) by (simp add: decimal_string.simps[of "10 * decimal_value ms + digit_value c"])
    with v ih(2) d(1) show ?thesis by simp
  qed
qed

lemma numeric_identifier_string:
  "numeric_identifier m \<Longrightarrow> decimal_string (decimal_value m) = m \<and> 0 \<le> decimal_value m"
proof (cases "m = ''0''")
  case True
  then show ?thesis by (simp add: decimal_value_def digit_value_def decimal_string_zero)
next
  case False
  assume "numeric_identifier m"
  with False have "m \<noteq> []" "list_all is_digit m" "hd m \<noteq> CHR ''0''"
    by (auto simp: numeric_identifier_def)
  from numeric_identifier_roundtrip[OF this] show ?thesis by simp
qed

lemma decimal_string_numeric:
  assumes "0 \<le> n" "n < 10 ^ 17"
  shows "numeric_identifier (decimal_string n)"
proof (cases "n = 0")
  case True
  then show ?thesis by (simp add: decimal_string_zero numeric_identifier_def)
next
  case False
  with assms have "0 < n" by simp
  then have "hd (decimal_string n) \<noteq> CHR ''0''" by (rule decimal_string_hd)
  moreover have "length (decimal_string n) \<le> 17"
    using decimal_string_length[OF assms(1,2)] by simp
  ultimately show ?thesis
    using decimal_string_digits[OF assms(1)]
    by (simp add: numeric_identifier_def MAX_LENGTH_def)
qed

lemma bit_length_bounds: "0 < n \<Longrightarrow> 2 ^ (bit_length n - 1) \<le> n \<and> n < 2 ^ bit_length n"
proof (induction n rule: bit_length.induct)
  case (1 n)
  show ?case
  proof (cases "n = 1")
    case True
    then show ?thesis by (simp add: bit_length.simps[of 1] bit_length.simps[of 0])
  next
    case False
    with 1(2) have pos: "0 < n div 2" by simp
    with 1 have ih: "2 ^ (bit_length (n div 2) - 1) \<le> n div 2" "n div 2 < 2 ^ bit_length (n div 2)"
      by simp_all
    have bl: "bit_length n = Suc (bit_length (n div 2))"
      using 1(2) by (simp add: bit_length.simps[of n])
    have "0 < bit_length (n div 2)" using pos by (simp add: bit_length.simps[of "n div 2"])
    then obtain j where j: "bit_length (n div 2) = Suc j" by (cases "bit_length (n div 2)") auto
    from ih j have "2 * 2 ^ j \<le> n" "n < 2 * 2 ^ Suc j" by auto
    with bl j show ?thesis by simp
  qed
qed

lemma to_double_small: "n < 2 ^ 53 \<Longrightarrow> to_double n = n"
  by (simp add: to_double_def)

lemma to_double_large:
  assumes "2 ^ 53 \<le> n"
  shows "2 ^ 53 \<le> to_double n"
proof -
  from assms have pos: "0 < n" by (smt (verit) zero_less_power)
  from bit_length_bounds[OF pos] have b: "2 ^ (bit_length n - 1) \<le> n" "n < 2 ^ bit_length n"
    by simp_all
  have "53 < bit_length n"
  proof (rule ccontr)
    assume "\<not> 53 < bit_length n"
    then have "bit_length n \<le> 53" by simp
    then have "(2::int) ^ bit_length n \<le> 2 ^ 53" by (rule power_increasing) simp
    with b(2) assms show False by simp
  qed
  then obtain e where e: "bit_length n = 53 + e" "0 < e"
    by (metis add_diff_inverse_nat less_imp_add_positive not_less_iff_gr_or_eq)
  have "bit_length n - 1 = 52 + e" using e by simp
  then have "(2::int) ^ (bit_length n - 1) = 2 ^ 52 * 2 ^ e"
    by (simp only: power_add)
  with b(1) have "2 ^ 52 * 2 ^ e \<le> n" by simp
  then have q: "2 ^ 52 \<le> n div 2 ^ e"
    by (smt (verit) div_mult_self4 zdiv_mono1 zero_less_power nonzero_mult_div_cancel_right power_not_zero)
  have two: "(2::int) \<le> 2 ^ e" using e(2) by (metis power_increasing[of 1 e 2] power_one_right one_le_numeral Suc_leI One_nat_def)
  have "(2::int) ^ 53 = 2 ^ 52 * 2" by simp
  also have "\<dots> \<le> (n div 2 ^ e) * 2 ^ e"
    using q two by (intro mult_mono) simp_all
  finally have low: "2 ^ 53 \<le> (n div 2 ^ e) * 2 ^ e" .
  have "(n div 2 ^ e) * 2 ^ e \<le> (n div 2 ^ e + 1) * 2 ^ e"
    by (simp add: distrib_right)
  with low have high: "2 ^ 53 \<le> (n div 2 ^ e + 1) * 2 ^ e" by (rule order_trans)
  have "bit_length n - 53 = e" using e by simp
  with assms low high show ?thesis
    by (simp add: to_double_def Let_def)
qed

lemma to_double_safe:
  "to_double n \<le> MAX_SAFE_INTEGER \<longleftrightarrow> n \<le> MAX_SAFE_INTEGER"
  "to_double n < MAX_SAFE_INTEGER \<longleftrightarrow> n < MAX_SAFE_INTEGER"
proof -
  have "(to_double n \<le> MAX_SAFE_INTEGER \<longleftrightarrow> n \<le> MAX_SAFE_INTEGER) \<and>
        (to_double n < MAX_SAFE_INTEGER \<longleftrightarrow> n < MAX_SAFE_INTEGER)"
  proof (cases "n < 2 ^ 53")
    case True
    then show ?thesis by (simp add: to_double_small)
  next
    case False
    then have "2 ^ 53 \<le> n" by simp
    from to_double_large[OF this] this show ?thesis
      by (simp add: MAX_SAFE_INTEGER_def)
  qed
  then show "to_double n \<le> MAX_SAFE_INTEGER \<longleftrightarrow> n \<le> MAX_SAFE_INTEGER"
    and "to_double n < MAX_SAFE_INTEGER \<longleftrightarrow> n < MAX_SAFE_INTEGER"
    by simp_all
qed


lemma js_split_nonempty: "js_split sep s \<noteq> []"
  by (induction s) (auto split: list.split)

lemma js_split_no_sep: "sep \<notin> set xs \<Longrightarrow> js_split sep xs = [xs]"
  by (induction xs) auto

lemma js_split_append:
  "sep \<notin> set xs \<Longrightarrow> js_split sep (xs @ sep # ys) = xs # js_split sep ys"
  by (induction xs) auto

lemma js_split_parts: "p \<in> set (js_split sep s) \<Longrightarrow> sep \<notin> set p"
proof (induction s arbitrary: p)
  case Nil
  then show ?case by simp
next
  case (Cons c s)
  obtain q qs where q: "js_split sep s = q # qs"
    using js_split_nonempty[of sep s] by (cases "js_split sep s") auto
  with Cons show ?case by (auto split: if_splits)
qed

lemma js_join_split: "js_join [sep] (js_split sep s) = s"
proof (induction s)
  case Nil
  show ?case by simp
next
  case (Cons c s)
  obtain q qs where q: "js_split sep s = q # qs"
    using js_split_nonempty[of sep s] by (cases "js_split sep s") auto
  with Cons show ?case by (cases qs) auto
qed

lemma js_split_join:
  "ps \<noteq> [] \<Longrightarrow> \<forall>p\<in>set ps. sep \<notin> set p \<Longrightarrow> js_split sep (js_join [sep] ps) = ps"
proof (induction "[sep]" ps rule: js_join.induct)
  case 1
  then show ?case by simp
next
  case (2 p)
  then show ?case by (simp add: js_split_no_sep)
next
  case (3 p q ps)
  then show ?case by (simp add: js_split_append)
qed

lemma is_ldn_chars:
  "is_ldn c \<Longrightarrow> c \<noteq> CHR ''.'' \<and> c \<noteq> CHR ''+'' \<and> \<not> is_space c"
  by (auto simp: is_ldn_def is_letter_def is_digit_def is_space_def)

lemma is_digit_chars:
  "is_digit c \<Longrightarrow> is_ldn c \<and> c \<noteq> CHR ''v'' \<and> c \<noteq> CHR ''-''"
  by (auto simp: is_ldn_def is_digit_def)


lemma decimal_value_nonneg: "list_all is_digit ds \<Longrightarrow> 0 \<le> decimal_value ds"
proof (induction ds rule: rev_induct)
  case Nil
  show ?case by (simp add: decimal_value_def)
next
  case (snoc c ds)
  then have "0 \<le> decimal_value ds" "is_digit c" by simp_all
  with digit_value_range[of c] show ?case by (simp add: decimal_value_snoc)
qed

lemma numeric_identifier_digits: "numeric_identifier x \<Longrightarrow> x \<noteq> [] \<and> list_all is_digit x"
  by (auto simp: numeric_identifier_def is_digit_def)

lemma prerelease_identifier_ldn:
  "prerelease_identifier x \<Longrightarrow> x \<noteq> [] \<and> list_all is_ldn x"
  using numeric_identifier_digits[of x]
  by (auto simp: prerelease_identifier_def nonnumeric_identifier_def list_all_iff is_digit_chars)

lemma digits_not_nonnumeric: "list_all is_digit x \<Longrightarrow> \<not> nonnumeric_identifier x"
  by (simp add: nonnumeric_identifier_def list_all_iff dropWhile_eq_Nil_conv[THEN iffD2])

lemma identifier_string_numberify:
  assumes "prerelease_identifier x"
  shows "identifier_string (numberify x) = x"
proof (cases "x \<noteq> [] \<and> list_all is_digit x \<and> to_double (decimal_value x) < MAX_SAFE_INTEGER")
  case True
  with assms digits_not_nonnumeric[of x] have "numeric_identifier x"
    by (auto simp: prerelease_identifier_def)
  with True numeric_identifier_string[of x] show ?thesis
    by (simp add: numberify_def identifier_string_def)
next
  case False
  then show ?thesis by (auto simp add: numberify_def identifier_string_def)
qed

lemma wf_id_numberify:
  assumes "prerelease_identifier x"
  shows "wf_id (numberify x)"
proof (cases "x \<noteq> [] \<and> list_all is_digit x \<and> to_double (decimal_value x) < MAX_SAFE_INTEGER")
  case True
  then have "numberify x = Num (decimal_value x)" by (simp add: numberify_def)
  moreover from True have "0 \<le> decimal_value x" by (simp add: decimal_value_nonneg)
  moreover from True have "decimal_value x < MAX_SAFE_INTEGER" by (simp add: to_double_safe)
  ultimately show ?thesis by (simp add: wf_id_def)
next
  case False
  then have "numberify x = Str x" by (auto simp add: numberify_def)
  with assms show ?thesis by (simp add: wf_id_def)
qed

lemma wf_id_string:
  assumes "wf_id i"
  shows "prerelease_identifier (identifier_string i) \<and> numberify (identifier_string i) = i"
proof (cases i)
  case (Num n)
  with assms have n: "0 \<le> n" "n < MAX_SAFE_INTEGER" by (simp_all add: wf_id_def)
  then have "n < 10 ^ 17" by (simp add: MAX_SAFE_INTEGER_def)
  with n have num: "numeric_identifier (decimal_string n)" by (simp add: decimal_string_numeric)
  have "to_double (decimal_value (decimal_string n)) < MAX_SAFE_INTEGER"
    using n by (simp add: decimal_value_string to_double_safe)
  with num n numeric_identifier_digits[OF num] Num show ?thesis
    by (simp add: identifier_string_def prerelease_identifier_def numberify_def decimal_value_string)
next
  case (Str x)
  with assms show ?thesis by (simp add: wf_id_def identifier_string_def)
qed

lemma dropWhile_Cons_length:
  "dropWhile P xs = y # ys \<Longrightarrow> length xs = length (takeWhile P xs) + Suc (length ys)"
  by (metis length_append length_Cons takeWhile_dropWhile_id)

lemma dropWhile_Cons_split:
  "dropWhile P xs = y # ys \<Longrightarrow> xs = takeWhile P xs @ y # ys"
  by (metis takeWhile_dropWhile_id)

lemma takeWhile_prefix:
  "\<forall>x\<in>set xs. P x \<Longrightarrow> (ys = [] \<or> \<not> P (hd ys)) \<Longrightarrow> takeWhile P (xs @ ys) = xs"
  by (cases ys) (simp_all add: takeWhile_append2)

lemma dropWhile_prefix:
  "\<forall>x\<in>set xs. P x \<Longrightarrow> (ys = [] \<or> \<not> P (hd ys)) \<Longrightarrow> dropWhile P (xs @ ys) = ys"
  by (cases ys) (simp_all add: dropWhile_append2)

lemma js_trim_length: "length (js_trim s) \<le> length s"
proof -
  have "length (js_trim s) \<le> length (dropWhile is_space s)"
    unfolding js_trim_def by (simp add: length_dropWhile_le order_trans[OF length_dropWhile_le])
  also have "\<dots> \<le> length s" by (rule length_dropWhile_le)
  finally show ?thesis .
qed

lemma js_trim_id:
  "s \<noteq> [] \<Longrightarrow> \<not> is_space (hd s) \<Longrightarrow> \<not> is_space (last s) \<Longrightarrow> js_trim s = s"
proof -
  assume a: "s \<noteq> []" "\<not> is_space (hd s)" "\<not> is_space (last s)"
  then have 1: "dropWhile is_space s = s" by (cases s) simp_all
  from a have "rev s \<noteq> []" "\<not> is_space (hd (rev s))" by (simp_all add: hd_rev)
  then have "dropWhile is_space (rev s) = rev s" by (cases "rev s") simp_all
  with 1 show ?thesis by (simp add: js_trim_def)
qed


lemma match_tail_D:
  assumes "match_tail r3 = Some (m4, m5)"
  shows "(case m4 of None \<Rightarrow> True
          | Some p \<Rightarrow> list_all prerelease_identifier (js_split CHR ''.'' p)) \<and>
         (case m4 of None \<Rightarrow> 0 | Some p \<Rightarrow> Suc (length p)) \<le> length r3"
proof (cases r3)
  case Nil
  with assms show ?thesis by (auto simp: match_tail_def)
next
  case (Cons c u)
  show ?thesis
  proof (cases "c = CHR ''-''")
    case True
    with Cons assms have m4: "m4 = Some (takeWhile (\<lambda>x. x \<noteq> CHR ''+'') u)"
      by (simp add: match_tail_def Let_def split: if_splits)
    with Cons True assms have "list_all prerelease_identifier
        (js_split CHR ''.'' (takeWhile (\<lambda>x. x \<noteq> CHR ''+'') u))"
      by (simp add: match_tail_def Let_def split: if_splits)
    with m4 Cons show ?thesis by (simp add: length_takeWhile_le)
  next
    case False
    with Cons assms have "m4 = None"
      by (simp add: match_tail_def Let_def split: if_splits)
    then show ?thesis by simp
  qed
qed

lemma match_FULL_D:
  assumes "match_FULL t = Some (m1, m2, m3, m4, m5)"
  shows "numeric_identifier m1 \<and> numeric_identifier m2 \<and> numeric_identifier m3 \<and>
         (case m4 of None \<Rightarrow> True
          | Some p \<Rightarrow> list_all prerelease_identifier (js_split CHR ''.'' p)) \<and>
         length m1 + length m2 + length m3 + 2
           + (case m4 of None \<Rightarrow> 0 | Some p \<Rightarrow> Suc (length p)) \<le> length t"
proof -
  have l0: "length (strip_v t) \<le> length t" by (auto simp: strip_v_def split: list.split)
  from assms obtain d1 t1 where r1: "dropWhile is_digit (strip_v t) = d1 # t1"
    unfolding match_FULL_def by (cases "dropWhile is_digit (strip_v t)") simp_all
  from assms r1 obtain d2 t2 where r2: "dropWhile is_digit t1 = d2 # t2"
    unfolding match_FULL_def by (cases "dropWhile is_digit t1") simp_all
  from assms r1 r2 have tl: "match_tail (dropWhile is_digit t2) = Some (m4, m5)"
    unfolding match_FULL_def
    by (cases "match_tail (dropWhile is_digit t2)") (auto split: if_splits)
  from assms r1 r2 tl have m: "m1 = takeWhile is_digit (strip_v t)" "m2 = takeWhile is_digit t1"
      "m3 = takeWhile is_digit t2"
      "numeric_identifier m1" "numeric_identifier m2" "numeric_identifier m3"
    unfolding match_FULL_def by (simp_all split: if_splits)
  have l1: "length (strip_v t) = length m1 + Suc (length t1)"
    using dropWhile_Cons_length[OF r1] m(1) by simp
  have l2: "length t1 = length m2 + Suc (length t2)"
    using dropWhile_Cons_length[OF r2] m(2) by simp
  have l3: "length t2 = length m3 + length (dropWhile is_digit t2)"
    unfolding m(3) by (metis length_append takeWhile_dropWhile_id)
  from match_tail_D[OF tl] have
    p: "(case m4 of None \<Rightarrow> True
          | Some p \<Rightarrow> list_all prerelease_identifier (js_split CHR ''.'' p))"
    and l4: "(case m4 of None \<Rightarrow> 0 | Some p \<Rightarrow> Suc (length p)) \<le> length (dropWhile is_digit t2)"
    by simp_all
  from l0 l1 l2 l3 l4 have "length m1 + length m2 + length m3 + 2
           + (case m4 of None \<Rightarrow> 0 | Some p \<Rightarrow> Suc (length p)) \<le> length t"
    by simp
  with m(4-6) p show ?thesis by simp
qed


lemma js_join_chars: "set (js_join sep ps) \<subseteq> set sep \<union> (\<Union>p\<in>set ps. set p)"
  by (induction sep ps rule: js_join.induct) auto

lemma dot_chars: "CHR ''.'' \<noteq> CHR ''+'' \<and> \<not> is_space CHR ''.''"
  by code_simp

lemma dot_or_ldn: "c = CHR ''.'' \<or> is_ldn c \<Longrightarrow> c \<noteq> CHR ''+'' \<and> \<not> is_space c"
  using is_ldn_chars[of c] dot_chars by blast

lemma prerelease_text_chars:
  assumes "list_all prerelease_identifier (js_split CHR ''.'' p)"
  shows "CHR ''+'' \<notin> set p \<and> p \<noteq> [] \<and> \<not> is_space (last p)"
proof -
  have ldn: "\<forall>q\<in>set (js_split CHR ''.'' p). q \<noteq> [] \<and> list_all is_ldn q"
    using assms prerelease_identifier_ldn by (auto simp: list_all_iff)
  have "\<forall>c\<in>set p. c = CHR ''.'' \<or> is_ldn c"
  proof
    fix c assume "c \<in> set p"
    then have "c \<in> set (js_join ''.'' (js_split CHR ''.'' p))" by (simp add: js_join_split)
    with js_join_chars[of "''.''" "js_split CHR ''.'' p"]
    have "c \<in> set ''.'' \<or> (\<exists>q\<in>set (js_split CHR ''.'' p). c \<in> set q)" by auto
    with ldn show "c = CHR ''.'' \<or> is_ldn c" by (auto simp: list_all_iff)
  qed
  then have chars: "\<forall>c\<in>set p. c \<noteq> CHR ''+'' \<and> \<not> is_space c"
    using dot_or_ldn by blast
  have ne: "p \<noteq> []"
  proof
    assume "p = []"
    with assms have "prerelease_identifier []" by simp
    with prerelease_identifier_ldn[of "[]"] show False by simp
  qed
  then have "last p \<in> set p" by simp
  with chars ne show ?thesis by blast
qed

lemma match_tail_I:
  "match_tail [] = Some (None, None)"
  "list_all prerelease_identifier (js_split CHR ''.'' p) \<Longrightarrow>
   match_tail (CHR ''-'' # p) = Some (Some p, None)"
proof -
  show "match_tail [] = Some (None, None)" by (simp add: match_tail_def)
next
  assume p: "list_all prerelease_identifier (js_split CHR ''.'' p)"
  from prerelease_text_chars[OF p] have "\<forall>x\<in>set p. x \<noteq> CHR ''+''" by auto
  then have tp: "takeWhile (\<lambda>x. x \<noteq> CHR ''+'') p = p" "dropWhile (\<lambda>x. x \<noteq> CHR ''+'') p = []"
    by simp_all
  show "match_tail (CHR ''-'' # p) = Some (Some p, None)"
    using p by (simp add: match_tail_def tp)
qed

lemma match_FULL_I:
  assumes "numeric_identifier m1" "numeric_identifier m2" "numeric_identifier m3"
      and "match_tail R = Some (m4, m5)" "R = [] \<or> \<not> is_digit (hd R)"
  shows "match_FULL (m1 @ CHR ''.'' # m2 @ CHR ''.'' # m3 @ R) = Some (m1, m2, m3, m4, m5)"
proof -
  from numeric_identifier_digits[OF assms(1)] obtain a as where m1: "m1 = a # as" "is_digit a"
    by (cases m1) auto
  have d1: "\<forall>x\<in>set m1. is_digit x" "\<forall>x\<in>set m2. is_digit x" "\<forall>x\<in>set m3. is_digit x"
    using assms(1-3) numeric_identifier_digits by (auto simp: list_all_iff)
  have dot: "\<not> is_digit CHR ''.''" by (simp add: is_digit_def)
  let ?t2 = "m3 @ R"
  let ?t1 = "m2 @ CHR ''.'' # ?t2"
  let ?s0 = "m1 @ CHR ''.'' # ?t1"
  have s0: "strip_v ?s0 = ?s0"
    using m1 is_digit_chars[of a] by (simp add: strip_v_def)
  have tk1: "takeWhile is_digit ?s0 = m1" "dropWhile is_digit ?s0 = CHR ''.'' # ?t1"
    using d1(1) dot by (simp_all add: takeWhile_prefix dropWhile_prefix)
  have tk2: "takeWhile is_digit ?t1 = m2" "dropWhile is_digit ?t1 = CHR ''.'' # ?t2"
    using d1(2) dot by (simp_all add: takeWhile_prefix dropWhile_prefix)
  have "takeWhile is_digit R = []" "dropWhile is_digit R = R"
    using assms(5) by (cases R; simp)+
  then have tk3: "takeWhile is_digit ?t2 = m3" "dropWhile is_digit ?t2 = R"
    using d1(3) by simp_all
  show ?thesis
    unfolding match_FULL_def s0 tk1 list.case tk2 tk3 assms(4) option.case prod.case
    using assms(1-3) by simp
qed


lemma format_parts:
  assumes "numeric_identifier m1" "numeric_identifier m2" "numeric_identifier m3"
  shows "format \<lparr> major = decimal_value m1, minor = decimal_value m2, patch = decimal_value m3,
                   prerelease = pre, build = b \<rparr>
         = m1 @ CHR ''.'' # m2 @ CHR ''.'' # m3
             @ (if pre = [] then [] else CHR ''-'' # js_join ''.'' (map identifier_string pre))"
  using numeric_identifier_string[OF assms(1)] numeric_identifier_string[OF assms(2)]
        numeric_identifier_string[OF assms(3)]
  by (simp add: format_def)

lemma map_identifier_string_numberify:
  "list_all prerelease_identifier xs \<Longrightarrow> map identifier_string (map numberify xs) = xs"
  by (induction xs) (simp_all add: identifier_string_numberify)

lemma map_numberify_identifier_string:
  "list_all wf_id ps \<Longrightarrow> map numberify (map identifier_string ps) = ps"
  by (induction ps) (simp_all add: wf_id_string)

lemma new_SemVer_wf:
  assumes "new_SemVer s = Some v"
  shows "wf_version v"
proof -
  from assms have len: "length s \<le> MAX_LENGTH"
    by (simp add: new_SemVer_def split: if_splits)
  from assms len obtain m1 m2 m3 m4 m5 where
    mt: "match_FULL (js_trim s) = Some (m1, m2, m3, m4, m5)"
    by (auto simp add: new_SemVer_def split: option.splits)
  from match_FULL_D[OF mt] have
    num: "numeric_identifier m1" "numeric_identifier m2" "numeric_identifier m3"
    and pre: "(case m4 of None \<Rightarrow> True
          | Some p \<Rightarrow> list_all prerelease_identifier (js_split CHR ''.'' p))"
    and total: "length m1 + length m2 + length m3 + 2
           + (case m4 of None \<Rightarrow> 0 | Some p \<Rightarrow> Suc (length p)) \<le> length (js_trim s)"
    by simp_all
  define pr where "pr = (case m4 of None \<Rightarrow> []
                         | Some p \<Rightarrow> if p = [] then [] else map numberify (js_split CHR ''.'' p))"
  from assms len mt have
    safe: "to_double (decimal_value m1) \<le> MAX_SAFE_INTEGER"
          "to_double (decimal_value m2) \<le> MAX_SAFE_INTEGER"
          "to_double (decimal_value m3) \<le> MAX_SAFE_INTEGER"
    unfolding new_SemVer_def by (simp_all split: if_splits)
  from assms len mt obtain b where
    v: "v = \<lparr> major = decimal_value m1, minor = decimal_value m2, patch = decimal_value m3,
               prerelease = pr, build = b \<rparr>"
    unfolding new_SemVer_def pr_def by (auto split: if_splits)
  have wfp: "list_all wf_id pr"
  proof (cases m4)
    case None
    then show ?thesis by (simp add: pr_def)
  next
    case (Some p)
    with pre have "list_all prerelease_identifier (js_split CHR ''.'' p)" by simp
    then have "list_all wf_id (map numberify (js_split CHR ''.'' p))"
      by (simp add: list_all_iff wf_id_numberify)
    with Some show ?thesis by (simp add: pr_def)
  qed
  have flen: "length (format v) \<le> length (js_trim s)"
  proof (cases m4)
    case None
    then have "pr = []" by (simp add: pr_def)
    with total None show ?thesis by (simp add: v format_parts[OF num])
  next
    case (Some p)
    with pre have ids: "list_all prerelease_identifier (js_split CHR ''.'' p)" by simp
    from prerelease_text_chars[OF ids] have "p \<noteq> []" by simp
    with Some have pr: "pr = map numberify (js_split CHR ''.'' p)" by (simp add: pr_def)
    then have "pr \<noteq> []" by (simp add: js_split_nonempty)
    moreover have "js_join ''.'' (map identifier_string pr) = p"
      unfolding pr by (simp only: map_identifier_string_numberify[OF ids] js_join_split)
    ultimately show ?thesis using total Some by (simp add: v format_parts[OF num])
  qed
  with js_trim_length[of s] len have "length (format v) \<le> MAX_LENGTH" by simp
  moreover have "0 \<le> decimal_value m1" "0 \<le> decimal_value m2" "0 \<le> decimal_value m3"
    using num numeric_identifier_string by simp_all
  ultimately show ?thesis
    using safe wfp by (simp add: wf_version_def v to_double_safe)
qed

lemma format_reparse:
  assumes "wf_version v"
  shows "new_SemVer (format v) = Some (v\<lparr>build := []\<rparr>)"
proof -
  from assms have b: "0 \<le> major v" "major v \<le> MAX_SAFE_INTEGER" "0 \<le> minor v"
      "minor v \<le> MAX_SAFE_INTEGER" "0 \<le> patch v" "patch v \<le> MAX_SAFE_INTEGER"
      and wfp: "list_all wf_id (prerelease v)" and len: "length (format v) \<le> MAX_LENGTH"
    by (simp_all add: wf_version_def)
  let ?m1 = "decimal_string (major v)"
  let ?m2 = "decimal_string (minor v)"
  let ?m3 = "decimal_string (patch v)"
  let ?ids = "map identifier_string (prerelease v)"
  let ?p = "js_join ''.'' ?ids"
  let ?R = "if prerelease v = [] then [] else CHR ''-'' # ?p"
  let ?m4 = "if prerelease v = [] then None else Some ?p"
  have small: "major v < 10 ^ 17" "minor v < 10 ^ 17" "patch v < 10 ^ 17"
    using b by (simp_all add: MAX_SAFE_INTEGER_def)
  have num: "numeric_identifier ?m1" "numeric_identifier ?m2" "numeric_identifier ?m3"
    using b small by (simp_all add: decimal_string_numeric)
  have fmt: "format v = ?m1 @ CHR ''.'' # ?m2 @ CHR ''.'' # ?m3 @ ?R"
    by (simp add: format_def)
  have ids: "list_all prerelease_identifier ?ids"
    using wfp wf_id_string by (auto simp: list_all_iff)
  have nodot: "\<forall>q\<in>set ?ids. CHR ''.'' \<notin> set q"
  proof
    fix q assume "q \<in> set ?ids"
    with ids have "list_all is_ldn q" using prerelease_identifier_ldn by (auto simp: list_all_iff)
    then show "CHR ''.'' \<notin> set q" using is_ldn_chars by (auto simp: list_all_iff)
  qed
  have split: "prerelease v \<noteq> [] \<Longrightarrow> js_split CHR ''.'' ?p = ?ids"
    using js_split_join[of ?ids "CHR ''.''"] nodot by simp
  have tail: "match_tail ?R = Some (?m4, None)"
    using split ids by (cases "prerelease v = []") (simp_all add: match_tail_I)
  have Rhd: "?R = [] \<or> \<not> is_digit (hd ?R)" by (simp add: is_digit_def)
  have mt: "match_FULL (format v) = Some (?m1, ?m2, ?m3, ?m4, None)"
    unfolding fmt by (rule match_FULL_I[OF num tail Rhd])
  obtain a as where m1: "?m1 = a # as" "is_digit a"
    using numeric_identifier_digits[OF num(1)] by (cases ?m1) auto
  have hd_ok: "\<not> is_space (hd (format v))"
    using m1 is_digit_chars[of a] is_ldn_chars[of a] by (simp add: fmt)
  have last_ok: "\<not> is_space (last (format v))"
  proof (cases "prerelease v = []")
    case True
    from numeric_identifier_digits[OF num(3)] have "?m3 \<noteq> []" "is_digit (last ?m3)"
      by (simp_all add: list_all_iff)
    with True is_digit_chars[of "last ?m3"] is_ldn_chars[of "last ?m3"] show ?thesis
      by (simp add: fmt)
  next
    case False
    with split ids have "list_all prerelease_identifier (js_split CHR ''.'' ?p)" by simp
    from prerelease_text_chars[OF this] False show ?thesis by (simp add: fmt)
  qed
  have trim: "js_trim (format v) = format v"
    using hd_ok last_ok by (intro js_trim_id) (simp_all add: fmt)
  have pne: "prerelease v \<noteq> [] \<Longrightarrow> ?p \<noteq> []"
  proof -
    assume "prerelease v \<noteq> []"
    with split ids have "list_all prerelease_identifier (js_split CHR ''.'' ?p)" by simp
    from prerelease_text_chars[OF this] show ?thesis by simp
  qed
  have vals: "decimal_value ?m1 = major v" "decimal_value ?m2 = minor v" "decimal_value ?m3 = patch v"
    using b by (simp_all add: decimal_value_string)
  have pre_back: "prerelease v \<noteq> [] \<Longrightarrow> map numberify (js_split CHR ''.'' ?p) = prerelease v"
    using split map_numberify_identifier_string[OF wfp] by simp
  have safe: "\<not> MAX_SAFE_INTEGER < to_double (major v)"
      "\<not> MAX_SAFE_INTEGER < to_double (minor v)" "\<not> MAX_SAFE_INTEGER < to_double (patch v)"
    using b by (simp_all add: not_less to_double_safe)
  show ?thesis
    unfolding new_SemVer_def trim mt
    using len pne pre_back safe
    by (cases "prerelease v = []") (simp_all add: vals)
qed

lemma clean_reparses:
  assumes "clean s = Some c"
  shows "\<exists>v. new_SemVer c = Some v \<and> wf_version v \<and> format v = c"
proof -
  from assms obtain v0 where v0: "new_SemVer (dropWhile (\<lambda>c. c = CHR ''='' \<or> c = CHR ''v'') (js_trim s)) = Some v0"
      "c = format v0"
    by (auto simp: clean_def parse_def)
  from new_SemVer_wf[OF v0(1)] have wf: "wf_version v0" .
  from format_reparse[OF wf] have re: "new_SemVer (format v0) = Some (v0\<lparr>build := []\<rparr>)" .
  have f: "format (v0\<lparr>build := []\<rparr>) = format v0" by (simp add: format_def)
  from wf have "wf_version (v0\<lparr>build := []\<rparr>)" unfolding wf_version_def f by simp
  with f show ?thesis using re v0(2) by simp
qed

section \<open>Facts about the tag resolver\<close>

lemma insert_sorted_set:
  "insert_sorted cmp x ys = Inr zs \<Longrightarrow> set zs = insert x (set ys)"
proof (induction ys arbitrary: zs)
  case Nil
  then show ?case by auto
next
  case (Cons y ys)
  from Cons.prems obtain c where c: "cmp x y = Inr c"
    by (cases "cmp x y") simp_all
  show ?case
  proof (cases "c < 0")
    case True
    with c Cons.prems show ?thesis by auto
  next
    case False
    with c Cons.prems obtain zs' where z: "insert_sorted cmp x ys = Inr zs'" "zs = y # zs'"
      by (cases "insert_sorted cmp x ys") auto
    from Cons.IH[OF z(1)] z(2) show ?thesis by auto
  qed
qed


lemma sort_from_set:
  "sort_from cmp acc xs = Inr zs \<Longrightarrow> set zs = set acc \<union> set xs"
proof (induction xs arbitrary: acc)
  case Nil
  then show ?case by simp
next
  case (Cons x xs)
  from Cons.prems obtain acc' where a: "insert_sorted cmp x acc = Inr acc'"
    by (cases "insert_sorted cmp x acc") simp_all
  with Cons.prems have b: "sort_from cmp acc' xs = Inr zs" by simp
  from Cons.IH[OF b] insert_sorted_set[OF a] show ?case by auto
qed

lemma insert_sorted_total:
  "\<forall>y\<in>set ys. \<exists>c. cmp x y = Inr c \<Longrightarrow> \<exists>zs. insert_sorted cmp x ys = Inr zs"
proof (induction ys)
  case Nil
  show ?case by simp
next
  case (Cons y ys)
  from Cons.prems obtain c where c: "cmp x y = Inr c" by auto
  from Cons obtain zs where z: "insert_sorted cmp x ys = Inr zs" by auto
  from c z show ?case by simp
qed

lemma sort_from_total:
  "\<forall>a\<in>set acc \<union> set xs. \<forall>b\<in>set acc \<union> set xs. \<exists>c. cmp a b = Inr c \<Longrightarrow>
   \<exists>zs. sort_from cmp acc xs = Inr zs"
proof (induction xs arbitrary: acc)
  case Nil
  show ?case by simp
next
  case (Cons x xs)
  from Cons.prems have "\<forall>y\<in>set acc. \<exists>c. cmp x y = Inr c" by simp
  with insert_sorted_total[of acc cmp x] obtain acc' where a: "insert_sorted cmp x acc = Inr acc'"
    by blast
  from insert_sorted_set[OF a] have "set acc' \<union> set xs = set acc \<union> set (x # xs)" by auto
  with Cons.prems have "\<forall>a\<in>set acc' \<union> set xs. \<forall>b\<in>set acc' \<union> set xs. \<exists>c. cmp a b = Inr c"
    by simp
  from Cons.IH[OF this] a show ?case by simp
qed

lemma compare_tags_total:
  assumes "clean (tag_name a) \<noteq> None" "clean (tag_name b) \<noteq> None"
  shows "\<exists>c. compare_tags a b = Inr c"
proof -
  from assms obtain x y where xy: "clean (tag_name a) = Some x" "clean (tag_name b) = Some y"
    by auto
  from clean_reparses[OF xy(1)] clean_reparses[OF xy(2)] obtain v w where
    "new_SemVer x = Some v" "new_SemVer y = Some w" by blast
  with xy show ?thesis by (simp add: compare_tags_def semver_compare_def)
qed

lemma getLatestTag_total:
  assumes "listTags rem = Inr data"
  shows "\<exists>r. getLatestTag rem boolAll = Inr r"
proof -
  let ?q = "filter (\<lambda>t. clean (tag_name t) \<noteq> None) data"
  have "\<forall>a\<in>set [] \<union> set ?q. \<forall>b\<in>set [] \<union> set ?q. \<exists>c. compare_tags a b = Inr c"
    using compare_tags_total by simp
  from sort_from_total[OF this] obtain zs where "js_sort compare_tags ?q = Inr zs"
    by (auto simp: js_sort_def)
  with assms show ?thesis by (simp add: getLatestTag_def)
qed

lemma pop_in_set: "pop ys = Some t \<Longrightarrow> t \<in> set ys"
  by (cases "ys = []") (auto simp: pop_def)

lemma getLatestTag_qualifies:
  assumes "getLatestTag rem boolAll = Inr (Some t)"
  shows "\<exists>data. listTags rem = Inr data \<and> t \<in> set data \<and> clean (tag_name t) \<noteq> None"
proof -
  from assms obtain data where d: "listTags rem = Inr data"
    by (auto simp: getLatestTag_def split: sum.splits)
  let ?q = "filter (\<lambda>t. clean (tag_name t) \<noteq> None) data"
  from assms d obtain zs where z: "js_sort compare_tags ?q = Inr zs"
    by (auto simp: getLatestTag_def split: sum.splits)
  then have s: "set zs = set ?q" using sort_from_set[of compare_tags "[]" ?q zs]
    by (simp add: js_sort_def)
  have "t \<in> set zs"
  proof (cases boolAll)
    case True
    with assms d z have "pop zs = Some t" by (simp add: getLatestTag_def)
    then show ?thesis by (rule pop_in_set)
  next
    case False
    with assms d z have "pop (filter (\<lambda>b. semver_prerelease (tag_name b) = None) zs) = Some t"
      by (simp add: getLatestTag_def)
    from pop_in_set[OF this] show ?thesis by simp
  qed
  with s d show ?thesis by simp
qed

lemma full_bump_text:
  assumes "clean versionTag = Some c" "level \<in> {''major'', ''minor'', ''patch''}"
  shows "\<exists>x y z. semver_inc (clean versionTag) level None
                    = Some (decimal_string x @ ''.'' @ decimal_string y @ ''.'' @ decimal_string z)"
proof -
  from clean_reparses[OF assms(1)] obtain v where v: "new_SemVer c = Some v" by blast
  have "\<exists>w. SemVer_inc level None v = Some w \<and> prerelease w = []"
  proof -
    from assms(2) consider "level = ''major''" | "level = ''minor''" | "level = ''patch''"
      by blast
    then show ?thesis
    proof cases
      case 1
      then show ?thesis by (simp add: SemVer_inc_def starts_with_def)
    next
      case 2
      then show ?thesis by (simp add: SemVer_inc_def starts_with_def)
    next
      case 3
      then show ?thesis by (simp add: SemVer_inc_def inc_patch_def starts_with_def)
    qed
  qed
  then obtain w where w: "SemVer_inc level None v = Some w" "prerelease w = []" by blast
  have f: "format w = decimal_string (major w) @ ''.'' @ decimal_string (minor w) @ ''.''
                         @ decimal_string (patch w)"
    using w(2) by (simp add: format_def)
  have "semver_inc (clean versionTag) level None = Some (format w)"
    using assms(1) v w(1) by (simp add: semver_inc_def)
  then have "semver_inc (clean versionTag) level None
               = Some (decimal_string (major w) @ ''.'' @ decimal_string (minor w) @ ''.''
                         @ decimal_string (patch w))"
    by (simp only: f)
  then show ?thesis by (intro exI)
qed

lemma versionTag_cleans:
  assumes "getLatestTag rem True = Inr latestTag"
  shows "\<exists>c. clean (case latestTag of None \<Rightarrow> ''0.0.0'' | Some t \<Rightarrow> tag_name t) = Some c"
proof (cases latestTag)
  case None
  have "clean ''0.0.0'' = Some ''0.0.0''" by code_simp
  with None show ?thesis by simp
next
  case (Some t)
  with assms have "getLatestTag rem True = Inr (Some t)" by simp
  from getLatestTag_qualifies[OF this] have "clean (tag_name t) \<noteq> None" by blast
  then obtain c where "clean (tag_name t) = Some c" by (cases "clean (tag_name t)") simp_all
  with Some show ?thesis by simp
qed

section \<open>The commit classifier\<close>

lemma check_loop_Cons:
  "check_loop rem tagSha its acc (c # cs) =
     (case commit_step rem tagSha its acc c of
        Stop r \<Rightarrow> r
      | Next acc' \<Rightarrow> check_loop rem tagSha its acc' cs)"
  by (simp add: commit_step_def Let_def split: option.split sum.split)

declare check_loop.simps(2) [simp del]

lemma labels_bump_cases: "labels_bump its ls = ''patch'' \<or> labels_bump its ls = ''minor''"
  by (induction its ls rule: labels_bump.induct) (auto simp: Let_def)

lemma step_wip:
  "Some (commit_sha c) \<noteq> tagSha \<Longrightarrow> wip (commit_message c) \<Longrightarrow>
   commit_step rem tagSha its acc c = Next acc"
  by (simp add: commit_step_def)

lemma step_major:
  "Some (commit_sha c) \<noteq> tagSha \<Longrightarrow> \<not> wip (commit_message c) \<Longrightarrow>
   major_re (commit_message c) \<Longrightarrow>
   commit_step rem tagSha its acc c = Stop (Inr ''major'')"
  by (simp add: commit_step_def)

lemma step_stop_value:
  "commit_step rem tagSha its acc c = Stop (Inr r) \<Longrightarrow>
   (r = acc \<and> Some (commit_sha c) = tagSha) \<or>
   (r = ''major'' \<and> Some (commit_sha c) \<noteq> tagSha \<and> \<not> wip (commit_message c)
      \<and> major_re (commit_message c))"
  by (simp add: commit_step_def Let_def split: if_splits option.splits sum.splits)

lemma step_next_rank:
  "commit_step rem tagSha its acc c = Next acc' \<Longrightarrow> acc \<noteq> ''major'' \<Longrightarrow>
   bump_rank acc \<le> bump_rank acc' \<and> acc' \<noteq> ''major''"
  using labels_bump_cases[of its]
  by (auto simp add: commit_step_def Let_def bump_rank_def
           split: if_splits option.splits sum.splits)

lemma step_next_values:
  "commit_step rem tagSha its acc c = Next acc' \<Longrightarrow>
   acc \<in> {''none'', ''patch'', ''minor'', ''major''} \<Longrightarrow>
   acc' \<in> {''none'', ''patch'', ''minor'', ''major''}"
  using labels_bump_cases[of its]
  by (auto simp add: commit_step_def Let_def split: if_splits option.splits sum.splits)

lemma step_from_minor:
  "commit_step rem tagSha its ''minor'' c = Next ''minor'' \<or>
   commit_step rem tagSha its ''minor'' c = Stop (Inr ''minor'') \<or>
   (commit_step rem tagSha its ''minor'' c = Stop (Inr ''major'')
      \<and> \<not> wip (commit_message c) \<and> major_re (commit_message c))"
  by (simp add: commit_step_def Let_def)

lemma check_loop_prefix_major:
  assumes "\<forall>p\<in>set pre. Some (commit_sha p) \<noteq> tagSha"
      and "check_loop rem tagSha its acc pre = Inr r"
      and "Some (commit_sha c) \<noteq> tagSha" "\<not> wip (commit_message c)"
          "major_re (commit_message c)"
  shows "check_loop rem tagSha its acc (pre @ c # rest) = Inr ''major''"
  using assms(1,2)
proof (induction pre arbitrary: acc)
  case Nil
  show ?case using assms(3-5) by (simp add: check_loop_Cons step_major)
next
  case (Cons p pre)
  show ?case
  proof (cases "commit_step rem tagSha its acc p")
    case (Stop x)
    with Cons.prems have "x = Inr r" by (simp add: check_loop_Cons)
    with Stop step_stop_value[of rem tagSha its acc p r] Cons.prems(1)
    show ?thesis by (simp add: check_loop_Cons)
  next
    case (Next acc')
    with Cons show ?thesis by (simp add: check_loop_Cons)
  qed
qed

lemma check_loop_minor_sticks:
  "\<forall>c\<in>set cs. wip (commit_message c) \<or> \<not> major_re (commit_message c) \<Longrightarrow>
   check_loop rem tagSha its ''minor'' cs = Inr ''minor''"
proof (induction cs)
  case Nil
  show ?case by simp
next
  case (Cons c cs)
  with step_from_minor[of rem tagSha its c] show ?case
    by (auto simp: check_loop_Cons)
qed

lemma check_loop_minor_or_major:
  "check_loop rem tagSha its ''minor'' cs = Inr ''minor'' \<or>
   check_loop rem tagSha its ''minor'' cs = Inr ''major''"
proof (induction cs)
  case Nil
  show ?case by simp
next
  case (Cons c cs)
  with step_from_minor[of rem tagSha its c] show ?case
    by (auto simp: check_loop_Cons)
qed

lemma check_loop_monotone:
  "check_loop rem tagSha its acc cs = Inr r \<Longrightarrow> acc \<noteq> ''major'' \<Longrightarrow>
   bump_rank acc \<le> bump_rank r"
proof (induction cs arbitrary: acc)
  case Nil
  then show ?case by simp
next
  case (Cons c cs)
  show ?case
  proof (cases "commit_step rem tagSha its acc c")
    case (Stop x)
    with Cons.prems have "x = Inr r" by (simp add: check_loop_Cons)
    with Stop step_stop_value[of rem tagSha its acc c r]
    show ?thesis by (auto simp: bump_rank_def)
  next
    case (Next acc')
    with Cons.prems have run: "check_loop rem tagSha its acc' cs = Inr r"
      by (simp add: check_loop_Cons)
    from Next Cons.prems(2) have "bump_rank acc \<le> bump_rank acc'" "acc' \<noteq> ''major''"
      using step_next_rank by blast+
    with Cons.IH[OF run] show ?thesis by simp
  qed
qed

lemma check_loop_values:
  "check_loop rem tagSha its acc cs = Inr r \<Longrightarrow>
   acc \<in> {''none'', ''patch'', ''minor'', ''major''} \<Longrightarrow>
   r \<in> {''none'', ''patch'', ''minor'', ''major''}"
proof (induction cs arbitrary: acc)
  case Nil
  then show ?case by simp
next
  case (Cons c cs)
  show ?case
  proof (cases "commit_step rem tagSha its acc c")
    case (Stop x)
    with Cons.prems have "x = Inr r" by (simp add: check_loop_Cons)
    with Stop step_stop_value[of rem tagSha its acc c r] Cons.prems(2)
    show ?thesis by auto
  next
    case (Next acc')
    with Cons.prems have run: "check_loop rem tagSha its acc' cs = Inr r"
      by (simp add: check_loop_Cons)
    from Next Cons.prems(2) have "acc' \<in> {''none'', ''patch'', ''minor'', ''major''}"
      by (rule step_next_values)
    with Cons.IH[OF run] show ?thesis by simp
  qed
qed

lemma check_loop_insert_wip:
  "Some (commit_sha c) \<noteq> tagSha \<Longrightarrow> wip (commit_message c) \<Longrightarrow>
   check_loop rem tagSha its acc (pre @ c # rest) = check_loop rem tagSha its acc (pre @ rest)"
proof (induction pre arbitrary: acc)
  case Nil
  then show ?case by (simp add: check_loop_Cons step_wip)
next
  case (Cons p pre)
  then show ?case
    by (simp add: check_loop_Cons split: step.split)
qed

lemma commit_step_remote:
  "issues_get r1 = issues_get r2 \<Longrightarrow>
   commit_step r1 tagSha its acc c = commit_step r2 tagSha its acc c"
  by (simp add: commit_step_def Let_def cong: if_cong option.case_cong)

lemma check_loop_remote:
  "issues_get r1 = issues_get r2 \<Longrightarrow>
   check_loop r1 tagSha its acc cs = check_loop r2 tagSha its acc cs"
proof (induction cs arbitrary: acc)
  case Nil
  show ?case by simp
next
  case (Cons c cs)
  from Cons.prems have "commit_step r1 tagSha its acc c = commit_step r2 tagSha its acc c"
    by (rule commit_step_remote)
  with Cons show ?case by (simp add: check_loop_Cons split: step.split)
qed

text \<open>
  C2. A commit that is not the stop commit, is not skipped as work in progress and matches
  \<open>#major\<close> makes the classifier return \<open>major\<close> at once: whatever the value of
  \<open>releaseBump\<close> and whatever commits follow, so none of them is evaluated (the result is
  the same when every later issue lookup would be rejected). The same holds after any
  scanned prefix that holds no stop commit and raises no error, and for \<open>checkMessages\<close>
  on the list the remote returns.
\<close>

theorem major_marker_returns_immediately:
  assumes "Some (commit_sha c) \<noteq> tagSha"
      and "\<not> wip (commit_message c)"
      and "major_re (commit_message c)"
  shows "check_loop rem tagSha its acc (c # rest) = Inr ''major'' \<and>
         (\<forall>pre r. (\<forall>p\<in>set pre. Some (commit_sha p) \<noteq> tagSha)
                    \<and> check_loop rem tagSha its acc pre = Inr r
                  \<longrightarrow> check_loop rem tagSha its acc (pre @ c # rest) = Inr ''major'') \<and>
         (\<forall>pre r. (\<forall>p\<in>set pre. Some (commit_sha p) \<noteq> tagSha)
                    \<and> check_loop rem tagSha its ''none'' pre = Inr r
                    \<and> listCommits rem head = Inr (pre @ c # rest)
                  \<longrightarrow> checkMessages rem head tagSha its = Inr ''major'')"
proof (intro conjI allI impI)
  show "check_loop rem tagSha its acc (c # rest) = Inr ''major''"
    using assms by (simp add: check_loop_Cons step_major)
next
  fix pre r
  assume "(\<forall>p\<in>set pre. Some (commit_sha p) \<noteq> tagSha)
            \<and> check_loop rem tagSha its acc pre = Inr r"
  then show "check_loop rem tagSha its acc (pre @ c # rest) = Inr ''major''"
    using assms check_loop_prefix_major by blast
next
  fix pre r
  assume h: "(\<forall>p\<in>set pre. Some (commit_sha p) \<noteq> tagSha)
               \<and> check_loop rem tagSha its ''none'' pre = Inr r
               \<and> listCommits rem head = Inr (pre @ c # rest)"
  then have "check_loop rem tagSha its ''none'' (pre @ c # rest) = Inr ''major''"
    using assms check_loop_prefix_major by blast
  with h show "checkMessages rem head tagSha its = Inr ''major''"
    by (simp add: checkMessages_def)
qed

theorem major_marker_returns_immediately_witness:
  "check_loop rejecting_remote (Some ''t0'') [''enhancement''] ''minor''
     [\<lparr>commit_sha = ''c2'', commit_message = ''rework the API #major''\<rparr>,
      \<lparr>commit_sha = ''c1'', commit_message = ''fixes #7''\<rparr>] = Inr ''major''"
proof -
  have 1: "Some (commit_sha \<lparr>commit_sha = ''c2'', commit_message = ''rework the API #major''\<rparr>)
             \<noteq> Some ''t0''"
    by simp
  have 2: "\<not> wip (commit_message \<lparr>commit_sha = ''c2'', commit_message = ''rework the API #major''\<rparr>)"
    by code_simp
  have 3: "major_re (commit_message \<lparr>commit_sha = ''c2'', commit_message = ''rework the API #major''\<rparr>)"
    by code_simp
  from major_marker_returns_immediately[OF 1 2 3] show ?thesis by blast
qed

text \<open>
  C3. The running classification only grows in the order none < patch < minor < major:
  whatever value below \<open>major\<close> the loop starts from, the value it returns is not smaller.
  Once \<open>releaseBump\<close> is \<open>minor\<close>, the result is \<open>minor\<close> or \<open>major\<close>, and it is
  \<open>minor\<close> when no later commit that is not work in progress matches \<open>#major\<close>: commits
  with a \<open>#patch\<close> marker or a fix reference, labelled or not, do not change it.
\<close>

theorem minor_is_never_downgraded:
  "(check_loop rem tagSha its ''minor'' cs = Inr ''minor''
      \<or> check_loop rem tagSha its ''minor'' cs = Inr ''major'') \<and>
   ((\<forall>c\<in>set cs. wip (commit_message c) \<or> \<not> major_re (commit_message c))
      \<longrightarrow> check_loop rem tagSha its ''minor'' cs = Inr ''minor'') \<and>
   (\<forall>acc r. check_loop rem tagSha its acc cs = Inr r \<and> acc \<noteq> ''major''
      \<longrightarrow> bump_rank acc \<le> bump_rank r)"
  using check_loop_minor_or_major[of rem tagSha its cs]
        check_loop_minor_sticks[of cs rem tagSha its]
        check_loop_monotone[of rem tagSha its _ cs]
  by blast

theorem minor_is_never_downgraded_witness:
  "check_loop
     (rejecting_remote\<lparr>issues_get := (\<lambda>d. Inr (Some \<lparr>issue_labels = [LabelObject (Some ''bug'')]\<rparr>))\<rparr>)
     None [''enhancement''] ''minor''
     [\<lparr>commit_sha = ''c3'', commit_message = ''tidy up #patch''\<rparr>,
      \<lparr>commit_sha = ''c2'', commit_message = ''fixes #12''\<rparr>,
      \<lparr>commit_sha = ''c1'', commit_message = ''fix #13 #patch''\<rparr>] = Inr ''minor''"
proof -
  have "\<forall>c\<in>set [\<lparr>commit_sha = ''c3'', commit_message = ''tidy up #patch''\<rparr>,
                  \<lparr>commit_sha = ''c2'', commit_message = ''fixes #12''\<rparr>,
                  \<lparr>commit_sha = ''c1'', commit_message = ''fix #13 #patch''\<rparr>].
          wip (commit_message c) \<or> \<not> major_re (commit_message c)"
    by code_simp
  with minor_is_never_downgraded show ?thesis by blast
qed

text \<open>
  C8, as the claim states it, fails: the loop compares the commit's identifier with the
  stop identifier before it looks at the message, so a work-in-progress commit that is
  the stop commit ends the scan. Here the older commit would give \<open>minor\<close>, and with the
  work-in-progress commit inserted before it the result is \<open>none\<close>.
\<close>

theorem wip_commit_at_stop_changes_result:
  "wip (commit_message \<lparr>commit_sha = ''t0'', commit_message = ''half done #wip''\<rparr>) \<and>
   check_loop rejecting_remote (Some ''t0'') [''enhancement''] ''none''
     ([] @ \<lparr>commit_sha = ''t0'', commit_message = ''half done #wip''\<rparr>
         # [\<lparr>commit_sha = ''c1'', commit_message = ''new command #minor''\<rparr>]) = Inr ''none'' \<and>
   check_loop rejecting_remote (Some ''t0'') [''enhancement''] ''none''
     ([] @ [\<lparr>commit_sha = ''c1'', commit_message = ''new command #minor''\<rparr>]) = Inr ''minor''"
  by code_simp

text \<open>
  C8, amended: a commit whose message matches \<open>#wip\<close> and whose identifier is not the stop
  identifier contributes nothing, whatever other markers its message holds: inserting it
  anywhere in a commit sequence leaves the result of the loop, and of \<open>checkMessages\<close>,
  unchanged.
\<close>

theorem wip_commit_contributes_nothing:
  assumes "Some (commit_sha c) \<noteq> tagSha"
      and "wip (commit_message c)"
  shows "check_loop rem tagSha its acc (pre @ c # rest) = check_loop rem tagSha its acc (pre @ rest) \<and>
         checkMessages (rem\<lparr>listCommits := (\<lambda>s. Inr (pre @ c # rest))\<rparr>) head tagSha its
           = checkMessages (rem\<lparr>listCommits := (\<lambda>s. Inr (pre @ rest))\<rparr>) head tagSha its"
proof -
  have "check_loop (rem\<lparr>listCommits := (\<lambda>s. Inr (pre @ c # rest))\<rparr>) tagSha its ''none'' (pre @ c # rest)
          = check_loop (rem\<lparr>listCommits := (\<lambda>s. Inr (pre @ c # rest))\<rparr>) tagSha its ''none'' (pre @ rest)"
    using assms by (rule check_loop_insert_wip)
  also have "\<dots> = check_loop (rem\<lparr>listCommits := (\<lambda>s. Inr (pre @ rest))\<rparr>) tagSha its ''none'' (pre @ rest)"
    by (rule check_loop_remote) simp
  finally have "checkMessages (rem\<lparr>listCommits := (\<lambda>s. Inr (pre @ c # rest))\<rparr>) head tagSha its
                  = checkMessages (rem\<lparr>listCommits := (\<lambda>s. Inr (pre @ rest))\<rparr>) head tagSha its"
    by (simp add: checkMessages_def)
  moreover have "check_loop rem tagSha its acc (pre @ c # rest)
                   = check_loop rem tagSha its acc (pre @ rest)"
    using assms by (rule check_loop_insert_wip)
  ultimately show ?thesis by simp
qed

theorem wip_commit_contributes_nothing_witness:
  "check_loop rejecting_remote (Some ''t0'') [''enhancement''] ''none''
     ([\<lparr>commit_sha = ''c3'', commit_message = ''docs #patch''\<rparr>]
        @ \<lparr>commit_sha = ''c2'', commit_message = ''#wip #major fixes #4''\<rparr>
        # [\<lparr>commit_sha = ''c1'', commit_message = ''new command #minor''\<rparr>])
   = check_loop rejecting_remote (Some ''t0'') [''enhancement''] ''none''
     ([\<lparr>commit_sha = ''c3'', commit_message = ''docs #patch''\<rparr>]
        @ [\<lparr>commit_sha = ''c1'', commit_message = ''new command #minor''\<rparr>])"
proof -
  have 1: "Some (commit_sha \<lparr>commit_sha = ''c2'', commit_message = ''#wip #major fixes #4''\<rparr>)
             \<noteq> Some ''t0''"
    by simp
  have 2: "wip (commit_message \<lparr>commit_sha = ''c2'', commit_message = ''#wip #major fixes #4''\<rparr>)"
    by code_simp
  from wip_commit_contributes_nothing[OF 1 2] show ?thesis by blast
qed

section \<open>The run\<close>

lemma action_plan:
  "action engine ctx inp rem =
     (case tagging_plan engine ctx inp rem of
        (effs, Inl e) \<Rightarrow> (effs, Inl e)
      | (effs, Inr (ref, sha)) \<Rightarrow>
          if js_toLowerCase (getInput (dry_run inp)) = ''true'' then (effs, Inr ())
          else (effs @ [CreateRef ref sha],
                (case createRef rem ref sha of Some e \<Rightarrow> Inl e | None \<Rightarrow> Inr ())))"
  by (simp add: action_def tagging_plan_def Let_def split: sum.split prod.split)

lemma custom_tag_step_outputs:
  "custom_tag_step rem t = (effs, r) \<Longrightarrow> list_all is_SetOutput effs"
  by (auto simp add: custom_tag_step_def split: sum.splits if_splits)

lemma version_step_outputs:
  "version_step engine inp rem sha b = (effs, r) \<Longrightarrow> list_all is_SetOutput effs"
  by (auto simp add: version_step_def Let_def split: sum.splits option.splits if_splits)

lemma tagging_plan_outputs: "list_all is_SetOutput (fst (tagging_plan engine ctx inp rem))"
  by (auto simp add: tagging_plan_def split: sum.split prod.split
           dest: custom_tag_step_outputs version_step_outputs)

lemma resolve_branch_dry_run:
  "resolve_branch ctx (inp\<lparr>dry_run := d\<rparr>) rem = resolve_branch ctx inp rem"
  by (simp add: resolve_branch_def)

lemma version_step_dry_run:
  "version_step engine (inp\<lparr>dry_run := d\<rparr>) rem sha b = version_step engine inp rem sha b"
  by (simp add: version_step_def Let_def split: sum.split)

lemma tagging_plan_dry_run:
  "tagging_plan engine ctx (inp\<lparr>dry_run := d\<rparr>) rem = tagging_plan engine ctx inp rem"
  by (simp add: tagging_plan_def resolve_branch_dry_run version_step_dry_run
           cong: if_cong sum.case_cong)

lemma main_action:
  "payload_repository ctx = Some r \<Longrightarrow> owner_login r = Some owner \<Longrightarrow> repo_name r = Some repo \<Longrightarrow>
   main engine ctx inp rem =
     (case action engine ctx inp rem of
        (effs, Inl message) \<Rightarrow> (effs, Failed message)
      | (effs, Inr u) \<Rightarrow> (effs, Success))"
  by (simp add: main_def)

lemma main_effects: "set (fst (main engine ctx inp rem)) \<subseteq> set (fst (action engine ctx inp rem))"
  by (auto simp add: main_def split: option.split prod.split sum.split)

lemma main_success:
  "snd (main engine ctx inp rem) = Success \<Longrightarrow> snd (action engine ctx inp rem) = Inr ()"
  by (auto simp add: main_def split: option.splits prod.splits sum.splits)

lemma plan_custom_tag_exists:
  assumes "getInput (tag_input inp) \<noteq> []" "listTags rem = Inr tags"
          "getInput (tag_input inp) \<in> tag_name ` set tags"
  shows "\<exists>e. snd (tagging_plan engine ctx inp rem) = Inl e"
proof -
  have "filter (\<lambda>t. tag_name t = getInput (tag_input inp)) tags \<noteq> []"
    using assms(3) by (auto simp: filter_empty_conv)
  then have "custom_tag_step rem (getInput (tag_input inp))
        = ([], Inl (''tag already exists '' @ getInput (tag_input inp)))"
    using assms(2) by (simp add: custom_tag_step_def checkTag_def)
  then show ?thesis
    using assms(1) by (simp add: tagging_plan_def split: sum.split)
qed

lemma plan_no_new_commits:
  assumes "getInput (tag_input inp) = []" "resolve_branch ctx inp rem = Inr bi"
          "getLatestTag rem True = Inr (Some t)" "tag_commit_sha t = ref_object_sha bi"
  shows "\<exists>e. snd (tagging_plan engine ctx inp rem) = Inl e"
proof -
  have "\<exists>e effs. version_step engine inp rem (ref_object_sha bi) (last (js_split CHR ''/'' (ref_ref bi))) = (effs, Inl e)"
    using assms(3,4) by (simp add: version_step_def Let_def split: sum.split)
  then show ?thesis
    using assms(1,2) by (auto simp add: tagging_plan_def)
qed


text \<open>
  C9. When the input \<open>dry-run\<close> reads \<open>true\<close> (in any letter case), the run computes and
  sets the same outputs as the run of the same state with any other value of the input,
  and it never calls \<open>createRef\<close>: its effects are the other run's effects without the
  write. A dry run that fails is the other run, step for step; a dry run that succeeds is
  the other run cut before its last step, the call of \<open>createRef\<close>, whose answer decides
  how the other run ends.
\<close>

theorem dry_run_only_omits_write:
  assumes "js_toLowerCase (getInput (dry_run inp)) = ''true''"
      and "js_toLowerCase (getInput d) \<noteq> ''true''"
  shows "list_all is_SetOutput (fst (action engine ctx inp rem)) \<and>
         fst (action engine ctx inp rem)
           = filter is_SetOutput (fst (action engine ctx (inp\<lparr>dry_run := d\<rparr>) rem)) \<and>
         (\<forall>e. snd (action engine ctx inp rem) = Inl e
            \<longrightarrow> action engine ctx (inp\<lparr>dry_run := d\<rparr>) rem = action engine ctx inp rem) \<and>
         (snd (action engine ctx inp rem) = Inr ()
            \<longrightarrow> (\<exists>ref sha. action engine ctx (inp\<lparr>dry_run := d\<rparr>) rem
                    = (fst (action engine ctx inp rem) @ [CreateRef ref sha],
                       (case createRef rem ref sha of Some e \<Rightarrow> Inl e | None \<Rightarrow> Inr ()))))"
proof -
  obtain effs res where plan: "tagging_plan engine ctx inp rem = (effs, res)"
    by (cases "tagging_plan engine ctx inp rem")
  have outs: "list_all is_SetOutput effs"
    using tagging_plan_outputs[of engine ctx inp rem] plan by simp
  then have keep: "filter is_SetOutput effs = effs"
    by (simp add: list_all_iff)
  have plan': "tagging_plan engine ctx (inp\<lparr>dry_run := d\<rparr>) rem = (effs, res)"
    using plan by (simp add: tagging_plan_dry_run)
  show ?thesis
  proof (cases res)
    case (Inl e)
    have "action engine ctx inp rem = (effs, Inl e)"
      using plan Inl by (simp add: action_plan)
    moreover have "action engine ctx (inp\<lparr>dry_run := d\<rparr>) rem = (effs, Inl e)"
      using plan' Inl by (simp add: action_plan)
    ultimately show ?thesis using outs keep by simp
  next
    case (Inr target)
    obtain ref sha where target: "target = (ref, sha)" by (cases target)
    have "action engine ctx inp rem = (effs, Inr ())"
      using plan Inr target assms(1) by (simp add: action_plan)
    moreover have "action engine ctx (inp\<lparr>dry_run := d\<rparr>) rem
        = (effs @ [CreateRef ref sha],
           (case createRef rem ref sha of Some e \<Rightarrow> Inl e | None \<Rightarrow> Inr ()))"
      using plan' Inr target assms(2) by (simp add: action_plan)
    ultimately show ?thesis using outs keep by simp
  qed
qed

theorem dry_run_only_omits_write_witness:
  "action no_engine (example_context ''refs/heads/main'') (example_inputs\<lparr>dry_run := '' TRUE ''\<rparr>)
     (example_remote [\<lparr>tag_name = ''v1.2.0'', tag_commit_sha = ''a1''\<rparr>] ''refs/heads/main'' ''c3''
        [\<lparr>commit_sha = ''c3'', commit_message = ''update readme''\<rparr>,
         \<lparr>commit_sha = ''a1'', commit_message = ''release''\<rparr>])
     = ([SetOutput ''tag'' ''v1.2.0'', SetOutput ''new-tag'' ''1.3.0''], Inr ()) \<and>
   (\<exists>ref sha.
      action no_engine (example_context ''refs/heads/main'')
        (example_inputs\<lparr>dry_run := '' TRUE '', dry_run := ''no''\<rparr>)
        (example_remote [\<lparr>tag_name = ''v1.2.0'', tag_commit_sha = ''a1''\<rparr>] ''refs/heads/main'' ''c3''
           [\<lparr>commit_sha = ''c3'', commit_message = ''update readme''\<rparr>,
            \<lparr>commit_sha = ''a1'', commit_message = ''release''\<rparr>])
      = ([SetOutput ''tag'' ''v1.2.0'', SetOutput ''new-tag'' ''1.3.0''] @ [CreateRef ref sha],
         Inr ()))"
proof -
  let ?inp = "example_inputs\<lparr>dry_run := '' TRUE ''\<rparr>"
  let ?rem = "example_remote [\<lparr>tag_name = ''v1.2.0'', tag_commit_sha = ''a1''\<rparr>] ''refs/heads/main'' ''c3''
        [\<lparr>commit_sha = ''c3'', commit_message = ''update readme''\<rparr>,
         \<lparr>commit_sha = ''a1'', commit_message = ''release''\<rparr>]"
  have 1: "js_toLowerCase (getInput (dry_run ?inp)) = ''true''"
    by code_simp
  have 2: "js_toLowerCase (getInput ''no'') \<noteq> ''true''"
    by code_simp
  have run: "action no_engine (example_context ''refs/heads/main'') ?inp ?rem
     = ([SetOutput ''tag'' ''v1.2.0'', SetOutput ''new-tag'' ''1.3.0''], Inr ())"
    by code_simp
  have new: "\<And>r s. createRef ?rem r s = None"
    by (simp add: example_remote_def)
  have "snd (action no_engine (example_context ''refs/heads/main'') ?inp ?rem) = Inr ()
          \<longrightarrow> (\<exists>ref sha. action no_engine (example_context ''refs/heads/main'')
                             (?inp\<lparr>dry_run := ''no''\<rparr>) ?rem
                  = (fst (action no_engine (example_context ''refs/heads/main'') ?inp ?rem)
                       @ [CreateRef ref sha],
                     (case createRef ?rem ref sha of Some e \<Rightarrow> Inl e | None \<Rightarrow> Inr ())))"
    using dry_run_only_omits_write[OF 1 2, of no_engine "example_context ''refs/heads/main''" ?rem]
    by blast
  then have "\<exists>ref sha. action no_engine (example_context ''refs/heads/main'')
                          (?inp\<lparr>dry_run := ''no''\<rparr>) ?rem
               = ([SetOutput ''tag'' ''v1.2.0'', SetOutput ''new-tag'' ''1.3.0'']
                    @ [CreateRef ref sha], Inr ())"
    unfolding run new by simp
  with run show ?thesis by blast
qed

text \<open>
  C6, as the claim states it, fails: with a custom tag configured, \<open>action\<close> never looks at
  the latest tag. Here the custom tag \<open>v9.9.9\<close> does not exist yet and the latest tag
  \<open>v1.2.0\<close> sits on the head of the branch; the run creates the ref and succeeds.
\<close>

theorem custom_tag_skips_no_new_commits_check:
  "getLatestTag
     (example_remote [\<lparr>tag_name = ''v1.2.0'', tag_commit_sha = ''a1''\<rparr>] ''refs/heads/main'' ''a1''
        [\<lparr>commit_sha = ''a1'', commit_message = ''release''\<rparr>]) True
     = Inr (Some \<lparr>tag_name = ''v1.2.0'', tag_commit_sha = ''a1''\<rparr>) \<and>
   resolve_branch (example_context ''refs/heads/main'') (example_inputs\<lparr>tag_input := ''v9.9.9''\<rparr>)
     (example_remote [\<lparr>tag_name = ''v1.2.0'', tag_commit_sha = ''a1''\<rparr>] ''refs/heads/main'' ''a1''
        [\<lparr>commit_sha = ''a1'', commit_message = ''release''\<rparr>])
     = Inr \<lparr>ref_ref = ''refs/heads/main'', ref_object_sha = ''a1''\<rparr> \<and>
   main no_engine (example_context ''refs/heads/main'') (example_inputs\<lparr>tag_input := ''v9.9.9''\<rparr>)
     (example_remote [\<lparr>tag_name = ''v1.2.0'', tag_commit_sha = ''a1''\<rparr>] ''refs/heads/main'' ''a1''
        [\<lparr>commit_sha = ''a1'', commit_message = ''release''\<rparr>])
     = ([SetOutput ''new-tag'' ''v9.9.9'', CreateRef ''refs/tags/v9.9.9'' ''a1''], Success)"
  by code_simp

text \<open>
  C6, amended: the run aborts with a failure and never calls \<open>createRef\<close> whenever a
  configured custom tag already exists among the repository's tags, or, no custom tag
  being configured, the commit of the latest qualifying tag is the head of the resolved
  branch.
\<close>

theorem conflicts_abort_before_write:
  assumes "(getInput (tag_input inp) \<noteq> [] \<and> listTags rem = Inr tags
              \<and> getInput (tag_input inp) \<in> tag_name ` set tags)
           \<or> (getInput (tag_input inp) = [] \<and> resolve_branch ctx inp rem = Inr bi
              \<and> getLatestTag rem True = Inr (Some t)
              \<and> tag_commit_sha t = ref_object_sha bi)"
  shows "(\<exists>e. snd (action engine ctx inp rem) = Inl e) \<and>
         list_all is_SetOutput (fst (action engine ctx inp rem)) \<and>
         snd (main engine ctx inp rem) \<noteq> Success \<and>
         list_all is_SetOutput (fst (main engine ctx inp rem))"
proof -
  from assms have "\<exists>e. snd (tagging_plan engine ctx inp rem) = Inl e"
    using plan_custom_tag_exists plan_no_new_commits by blast
  then obtain effs e where plan: "tagging_plan engine ctx inp rem = (effs, Inl e)"
    by (cases "tagging_plan engine ctx inp rem") auto
  have outs: "list_all is_SetOutput effs"
    using tagging_plan_outputs[of engine ctx inp rem] plan by simp
  have act: "action engine ctx inp rem = (effs, Inl e)"
    using plan by (simp add: action_plan)
  have "snd (main engine ctx inp rem) \<noteq> Success"
    using main_success[of engine ctx inp rem] act by auto
  moreover have "list_all is_SetOutput (fst (main engine ctx inp rem))"
    using main_effects[of engine ctx inp rem] act outs by (auto simp: list_all_iff)
  ultimately show ?thesis using act outs by simp
qed

theorem conflicts_abort_before_write_witness:
  "main no_engine (example_context ''refs/heads/main'') (example_inputs\<lparr>tag_input := ''v9.9.9''\<rparr>)
     (example_remote [\<lparr>tag_name = ''v9.9.9'', tag_commit_sha = ''b2''\<rparr>,
                      \<lparr>tag_name = ''v1.2.0'', tag_commit_sha = ''a1''\<rparr>] ''refs/heads/main'' ''c3'' [])
     = ([], Failed ''tag already exists v9.9.9'') \<and>
   main no_engine (example_context ''refs/heads/main'') example_inputs
     (example_remote [\<lparr>tag_name = ''v1.2.0'', tag_commit_sha = ''a1''\<rparr>] ''refs/heads/main'' ''a1'' [])
     = ([SetOutput ''tag'' ''v1.2.0''], Failed ''no new commits, avoid tagging'')"
proof -
  let ?ctx = "example_context ''refs/heads/main''"
  let ?inp1 = "example_inputs\<lparr>tag_input := ''v9.9.9''\<rparr>"
  let ?tags1 = "[\<lparr>tag_name = ''v9.9.9'', tag_commit_sha = ''b2''\<rparr>,
                 \<lparr>tag_name = ''v1.2.0'', tag_commit_sha = ''a1''\<rparr>]"
  let ?rem1 = "example_remote ?tags1 ''refs/heads/main'' ''c3'' []"
  let ?rem2 = "example_remote [\<lparr>tag_name = ''v1.2.0'', tag_commit_sha = ''a1''\<rparr>]
                 ''refs/heads/main'' ''a1'' []"
  have a: "getInput (tag_input ?inp1) \<noteq> [] \<and> listTags ?rem1 = Inr ?tags1
             \<and> getInput (tag_input ?inp1) \<in> tag_name ` set ?tags1"
    by code_simp
  have b: "getInput (tag_input example_inputs) = []
             \<and> resolve_branch ?ctx example_inputs ?rem2
                 = Inr \<lparr>ref_ref = ''refs/heads/main'', ref_object_sha = ''a1''\<rparr>
             \<and> getLatestTag ?rem2 True = Inr (Some \<lparr>tag_name = ''v1.2.0'', tag_commit_sha = ''a1''\<rparr>)
             \<and> tag_commit_sha \<lparr>tag_name = ''v1.2.0'', tag_commit_sha = ''a1''\<rparr>
                 = ref_object_sha \<lparr>ref_ref = ''refs/heads/main'', ref_object_sha = ''a1''\<rparr>"
    by code_simp
  have "snd (main no_engine ?ctx ?inp1 ?rem1) \<noteq> Success"
    using conflicts_abort_before_write[of ?inp1 ?rem1 ?tags1 ?ctx _ _ no_engine] a by blast
  moreover have "snd (main no_engine ?ctx example_inputs ?rem2) \<noteq> Success"
    using conflicts_abort_before_write[of example_inputs ?rem2 _ ?ctx
            "\<lparr>ref_ref = ''refs/heads/main'', ref_object_sha = ''a1''\<rparr>"
            "\<lparr>tag_name = ''v1.2.0'', tag_commit_sha = ''a1''\<rparr>" no_engine] b by blast
  moreover have "main no_engine ?ctx ?inp1 ?rem1 = ([], Failed ''tag already exists v9.9.9'')"
    by code_simp
  moreover have "main no_engine ?ctx example_inputs ?rem2
                   = ([SetOutput ''tag'' ''v1.2.0''], Failed ''no new commits, avoid tagging'')"
    by code_simp
  ultimately show ?thesis by simp
qed

text \<open>
  C7, as the claim states it, fails: the two guards at the top of the module throw
  outside of \<open>action()\<close> and its \<open>catch\<close>. For an event without a repository, and for one
  whose repository has no name, the process ends with an uncaught exception.
\<close>

theorem missing_repository_is_uncaught:
  "main no_engine \<lparr>payload_repository = None, context_ref = ''refs/heads/main''\<rparr> example_inputs
     rejecting_remote = ([], Uncaught ''Repository owner can't be null'') \<and>
   main no_engine
     \<lparr>payload_repository = Some \<lparr>owner_login = Some ''rbkmoney'', repo_name = None\<rparr>,
      context_ref = ''refs/heads/main''\<rparr> example_inputs
     rejecting_remote = ([], Uncaught ''Repository name can't be null'')"
  by code_simp

text \<open>
  C7, amended: when the triggering event carries the repository's owner and name, every
  error thrown during the run is caught at the top level and reported as the run's
  failure reason, and the process never ends with an uncaught exception. (Without owner
  or name the guard at the top of the module throws, and nothing catches it.)
\<close>

theorem errors_caught_when_repository_known:
  assumes "payload_repository ctx = Some r" "owner_login r = Some owner" "repo_name r = Some repo"
  shows "(\<forall>m. snd (main engine ctx inp rem) \<noteq> Uncaught m) \<and>
         (\<forall>effs e. action engine ctx inp rem = (effs, Inl e)
             \<longrightarrow> main engine ctx inp rem = (effs, Failed e)) \<and>
         (\<forall>effs. action engine ctx inp rem = (effs, Inr ())
             \<longrightarrow> main engine ctx inp rem = (effs, Success))"
  using assms by (auto simp add: main_def split: prod.split sum.split)

theorem errors_caught_when_repository_known_witness:
  "main no_engine (example_context ''refs/heads/main'') example_inputs rejecting_remote
     = ([], Failed ''failed to load branch main'')"
proof -
  have ctx: "payload_repository (example_context ''refs/heads/main'')
               = Some \<lparr>owner_login = Some ''rbkmoney'', repo_name = Some ''action-tagger''\<rparr>"
    by (simp add: example_context_def)
  have act: "action no_engine (example_context ''refs/heads/main'') example_inputs rejecting_remote
               = ([], Inl ''failed to load branch main'')"
    by code_simp
  from errors_caught_when_repository_known[OF ctx, of "''rbkmoney''" "''action-tagger''"
         no_engine example_inputs rejecting_remote] act
  show ?thesis by simp
qed

section \<open>The next version\<close>

lemma js_includes_empty: "js_includes [] s"
  by (cases s) (simp_all add: starts_with_def)

lemma isReleaseBranch_empty: "isReleaseBranch engine branchName [] = Inr True"
  by (simp add: isReleaseBranch_def RegExp_def js_trim_def js_includes_empty)

lemma version_step_result:
  assumes "version_step engine inp rem sha branchName = (effs, Inr nextVersion)"
  shows "\<exists>latestTag latestMainTag msgLevel is_release.
           getLatestTag rem True = Inr latestTag \<and>
           getLatestTag rem False = Inr latestMainTag \<and>
           checkMessages rem sha (map_option tag_commit_sha latestMainTag)
             (issLabs_of (getInput (issue_labels_input inp))) = Inr msgLevel \<and>
           isReleaseBranch engine branchName (getInput (release_branch inp)) = Inr is_release \<and>
           nextVersion = next_version (clean (case latestTag of None \<Rightarrow> ''0.0.0'' | Some t \<Rightarrow> tag_name t))
                           branchName (getInput (bump inp)) msgLevel is_release \<and>
           effs = [SetOutput ''tag'' (case latestTag of None \<Rightarrow> ''0.0.0'' | Some t \<Rightarrow> tag_name t),
                   SetOutput ''new-tag'' (toCommandValue nextVersion)]"
  using assms
  by (auto simp add: version_step_def Let_def split: sum.splits if_splits)

lemma checkMessages_values:
  "checkMessages rem sha tagSha its = Inr msgLevel \<Longrightarrow>
   msgLevel \<in> {''none'', ''patch'', ''minor'', ''major''}"
  using check_loop_values[of rem tagSha its "''none''" _ msgLevel]
  by (auto simp add: checkMessages_def split: sum.splits)

lemma release_path_full_version:
  assumes "version_step engine inp rem sha branchName = (effs, Inr nextVersion)"
      and "isReleaseBranch engine branchName (getInput (release_branch inp)) = Inr True"
      and "getInput (bump inp) \<in> {''major'', ''minor'', ''patch''}"
  shows "\<exists>x y z. nextVersion
           = Text (decimal_string x @ ''.'' @ decimal_string y @ ''.'' @ decimal_string z)"
proof -
  from version_step_result[OF assms(1)] obtain latestTag latestMainTag msgLevel is_release where
    r0: "getLatestTag rem True = Inr latestTag" "getLatestTag rem False = Inr latestMainTag"
       "checkMessages rem sha (map_option tag_commit_sha latestMainTag)
             (issLabs_of (getInput (issue_labels_input inp))) = Inr msgLevel"
       "isReleaseBranch engine branchName (getInput (release_branch inp)) = Inr is_release"
       "nextVersion = next_version (clean (case latestTag of None \<Rightarrow> ''0.0.0'' | Some t \<Rightarrow> tag_name t))
                           branchName (getInput (bump inp)) msgLevel is_release"
    by blast
  note r = r0(1) r0(3) r0(4) r0(5)
  let ?tag = "case latestTag of None \<Rightarrow> ''0.0.0'' | Some t \<Rightarrow> tag_name t"
  let ?level = "if msgLevel = ''none'' then getInput (bump inp) else msgLevel"
  from r(3) assms(2) have "is_release" by simp
  with r(4) have nv: "nextVersion = of_inc (semver_inc (clean ?tag) ?level None)"
    by (simp add: next_version_def)
  from versionTag_cleans[OF r(1)] obtain c where c: "clean ?tag = Some c" by blast
  from checkMessages_values[OF r(2)] assms(3)
  have "?level \<in> {''major'', ''minor'', ''patch''}" by auto
  from full_bump_text[OF c this] obtain x y z where
    "semver_inc (clean ?tag) ?level None
       = Some (decimal_string x @ ''.'' @ decimal_string y @ ''.'' @ decimal_string z)"
    by blast
  with nv have "nextVersion
           = Text (decimal_string x @ ''.'' @ decimal_string y @ ''.'' @ decimal_string z)"
    by (simp add: of_inc_def)
  then show ?thesis by (intro exI)
qed

lemma version_step_release:
  assumes lt: "getLatestTag rem True = Inr latestTag"
      and lm: "getLatestTag rem False = Inr latestMainTag"
      and new: "(case latestTag of None \<Rightarrow> True | Some t \<Rightarrow> tag_commit_sha t \<noteq> sha)"
      and msgs: "checkMessages rem sha (map_option tag_commit_sha latestMainTag)
                   (issLabs_of (getInput (issue_labels_input inp))) = Inr msgLevel"
      and rel: "isReleaseBranch engine branchName (getInput (release_branch inp)) = Inr True"
  shows "version_step engine inp rem sha branchName
           = ([SetOutput ''tag'' (case latestTag of None \<Rightarrow> ''0.0.0'' | Some t \<Rightarrow> tag_name t),
               SetOutput ''new-tag''
                 (toCommandValue
                    (of_inc (semver_inc
                       (clean (case latestTag of None \<Rightarrow> ''0.0.0'' | Some t \<Rightarrow> tag_name t))
                       (if msgLevel = ''none'' then getInput (bump inp) else msgLevel) None)))],
              Inr (of_inc (semver_inc
                       (clean (case latestTag of None \<Rightarrow> ''0.0.0'' | Some t \<Rightarrow> tag_name t))
                       (if msgLevel = ''none'' then getInput (bump inp) else msgLevel) None)))"
proof -
  have fresh: "\<not> (case latestTag of None \<Rightarrow> False | Some t \<Rightarrow> tag_commit_sha t = sha)"
    using new by (cases latestTag) simp_all
  show ?thesis
    unfolding version_step_def lt lm msgs rel sum.case Let_def
    using fresh by (simp add: next_version_def)
qed

lemma action_after_version_step:
  assumes tok: "getInput (github_token inp) \<noteq> []"
      and custom: "getInput (tag_input inp) = []"
      and rb: "resolve_branch ctx inp rem = Inr branchInfo"
      and vs: "version_step engine inp rem (ref_object_sha branchInfo)
                 (last (js_split CHR ''/'' (ref_ref branchInfo))) = (effs, Inr nextVersion)"
  shows "fst (action engine ctx inp rem)
           = effs @ (if js_toLowerCase (getInput (dry_run inp)) = ''true'' then []
                     else [CreateRef (''refs/tags/''
                                        @ (if js_toLowerCase (getInput (with_v inp)) = ''false''
                                           then [] else ''v'') @ template nextVersion)
                             (ref_object_sha branchInfo)])"
proof -
  from tok have raw: "github_token inp \<noteq> []" by (auto simp: getInput_def js_trim_def)
  have "tagging_plan engine ctx inp rem
          = (effs, Inr (''refs/tags/'' @ (if js_toLowerCase (getInput (with_v inp)) = ''false''
                                           then [] else ''v'') @ template nextVersion,
                        ref_object_sha branchInfo))"
    unfolding tagging_plan_def using raw tok custom rb vs by simp
  then show ?thesis by (simp add: action_plan)
qed


text \<open>
  C4, as the claim states it, fails: \<open>action\<close> does not test the branch's name against
  the release-branch patterns but what follows the last \<open>/\<close> of the branch's ref. The
  branch \<open>release/v1\<close> matches the configured pattern \<open>release/v1\<close>, yet the run tests
  \<open>v1\<close>, which does not match, and sets the prerelease increment \<open>1.2.1-v1.0\<close> although a
  commit message holds \<open>#major\<close>, where the increment of \<open>1.2.0\<close> by \<open>major\<close> is \<open>2.0.0\<close>.
\<close>

theorem release_branch_with_slash_not_bumped:
  "isReleaseBranch no_engine ''release/v1'' (getInput ''release/v1'') = Inr True \<and>
   main no_engine (example_context ''refs/heads/release/v1'')
     (example_inputs\<lparr>release_branch := ''release/v1''\<rparr>)
     (example_remote [\<lparr>tag_name = ''v1.2.0'', tag_commit_sha = ''a1''\<rparr>]
        ''refs/heads/release/v1'' ''c3''
        [\<lparr>commit_sha = ''c3'', commit_message = ''update readme''\<rparr>,
         \<lparr>commit_sha = ''c2'', commit_message = ''drop the old API #major''\<rparr>,
         \<lparr>commit_sha = ''a1'', commit_message = ''release 1.2.0''\<rparr>])
     = ([SetOutput ''tag'' ''v1.2.0'', SetOutput ''new-tag'' ''1.2.1-v1.0'',
         CreateRef ''refs/tags/v1.2.1-v1.0'' ''c3''], Success) \<and>
   semver_inc (clean ''v1.2.0'') ''major'' None = Some ''2.0.0''"
  by code_simp

text \<open>
  C4, amended: when the last segment of the resolved branch's ref (what follows its last
  \<open>/\<close>) matches at least one configured release-branch pattern, the version the run sets
  and tags is \<open>semver.inc\<close> of the current version, by the level found in the commit
  messages when that is not \<open>none\<close> and by the configured bump otherwise. For the levels
  \<open>major\<close>, \<open>minor\<close> and \<open>patch\<close> the increment resets the lower components and strips the
  prerelease, and when the configured bump is one of them the next version is a plain
  \<open>X.Y.Z\<close>. With the single tag \<open>v1.2.0\<close>, the branch \<open>main\<close>, the bump \<open>minor\<close> and no
  markers the run sets \<open>1.3.0\<close>; with a commit message holding \<open>#major\<close> it sets \<open>2.0.0\<close>.
\<close>

theorem release_segment_bump:
  assumes tok: "getInput (github_token inp) \<noteq> []"
      and custom: "getInput (tag_input inp) = []"
      and rb: "resolve_branch ctx inp rem = Inr branchInfo"
      and lt: "getLatestTag rem True = Inr latestTag"
      and lm: "getLatestTag rem False = Inr latestMainTag"
      and new: "(case latestTag of None \<Rightarrow> True
                 | Some t \<Rightarrow> tag_commit_sha t \<noteq> ref_object_sha branchInfo)"
      and msgs: "checkMessages rem (ref_object_sha branchInfo)
                   (map_option tag_commit_sha latestMainTag)
                   (issLabs_of (getInput (issue_labels_input inp))) = Inr msgLevel"
      and rel: "isReleaseBranch engine (last (js_split CHR ''/'' (ref_ref branchInfo)))
                  (getInput (release_branch inp)) = Inr True"
  shows "fst (action engine ctx inp rem)
           = [SetOutput ''tag'' (case latestTag of None \<Rightarrow> ''0.0.0'' | Some t \<Rightarrow> tag_name t),
              SetOutput ''new-tag''
                (toCommandValue
                   (of_inc (semver_inc
                      (clean (case latestTag of None \<Rightarrow> ''0.0.0'' | Some t \<Rightarrow> tag_name t))
                      (if msgLevel = ''none'' then getInput (bump inp) else msgLevel) None)))]
             @ (if js_toLowerCase (getInput (dry_run inp)) = ''true'' then []
                else [CreateRef
                        (''refs/tags/''
                           @ (if js_toLowerCase (getInput (with_v inp)) = ''false'' then [] else ''v'')
                           @ template
                               (of_inc (semver_inc
                                  (clean (case latestTag of None \<Rightarrow> ''0.0.0''
                                          | Some t \<Rightarrow> tag_name t))
                                  (if msgLevel = ''none'' then getInput (bump inp) else msgLevel)
                                  None)))
                        (ref_object_sha branchInfo)]) \<and>
         (getInput (bump inp) \<in> {''major'', ''minor'', ''patch''}
            \<longrightarrow> (\<exists>x y z.
                   of_inc (semver_inc
                      (clean (case latestTag of None \<Rightarrow> ''0.0.0'' | Some t \<Rightarrow> tag_name t))
                      (if msgLevel = ''none'' then getInput (bump inp) else msgLevel) None)
                   = Text (decimal_string x @ ''.'' @ decimal_string y @ ''.'' @ decimal_string z))) \<and>
         (\<forall>v. prerelease v = [] \<longrightarrow>
            SemVer_inc ''major'' None v
              = Some (v\<lparr>major := major v + 1, minor := 0, patch := 0, prerelease := []\<rparr>) \<and>
            SemVer_inc ''minor'' None v
              = Some (v\<lparr>minor := minor v + 1, patch := 0, prerelease := []\<rparr>) \<and>
            SemVer_inc ''patch'' None v = Some (v\<lparr>patch := patch v + 1, prerelease := []\<rparr>)) \<and>
         main no_engine (example_context ''refs/heads/main'') example_inputs
           (example_remote [\<lparr>tag_name = ''v1.2.0'', tag_commit_sha = ''a1''\<rparr>] ''refs/heads/main'' ''c3''
              [\<lparr>commit_sha = ''c3'', commit_message = ''update readme''\<rparr>,
               \<lparr>commit_sha = ''c2'', commit_message = ''refactor the parser''\<rparr>,
               \<lparr>commit_sha = ''a1'', commit_message = ''release 1.2.0''\<rparr>])
           = ([SetOutput ''tag'' ''v1.2.0'', SetOutput ''new-tag'' ''1.3.0'',
               CreateRef ''refs/tags/v1.3.0'' ''c3''], Success) \<and>
         main no_engine (example_context ''refs/heads/main'') example_inputs
           (example_remote [\<lparr>tag_name = ''v1.2.0'', tag_commit_sha = ''a1''\<rparr>] ''refs/heads/main'' ''c3''
              [\<lparr>commit_sha = ''c3'', commit_message = ''update readme''\<rparr>,
               \<lparr>commit_sha = ''c2'', commit_message = ''drop the old API #major''\<rparr>,
               \<lparr>commit_sha = ''a1'', commit_message = ''release 1.2.0''\<rparr>])
           = ([SetOutput ''tag'' ''v1.2.0'', SetOutput ''new-tag'' ''2.0.0'',
               CreateRef ''refs/tags/v2.0.0'' ''c3''], Success)"
proof -
  let ?tag = "case latestTag of None \<Rightarrow> ''0.0.0'' | Some t \<Rightarrow> tag_name t"
  let ?nv = "of_inc (semver_inc (clean ?tag)
                       (if msgLevel = ''none'' then getInput (bump inp) else msgLevel) None)"
  let ?effs = "[SetOutput ''tag'' ?tag, SetOutput ''new-tag'' (toCommandValue ?nv)]"
  have vs: "version_step engine inp rem (ref_object_sha branchInfo)
              (last (js_split CHR ''/'' (ref_ref branchInfo))) = (?effs, Inr ?nv)"
    by (rule version_step_release[OF lt lm new msgs rel])
  have run: "fst (action engine ctx inp rem)
           = ?effs @ (if js_toLowerCase (getInput (dry_run inp)) = ''true'' then []
                      else [CreateRef
                        (''refs/tags/''
                           @ (if js_toLowerCase (getInput (with_v inp)) = ''false'' then [] else ''v'')
                           @ template ?nv)
                        (ref_object_sha branchInfo)])"
    by (rule action_after_version_step[OF tok custom rb vs])
  have full: "getInput (bump inp) \<in> {''major'', ''minor'', ''patch''}
            \<longrightarrow> (\<exists>x y z. ?nv
                   = Text (decimal_string x @ ''.'' @ decimal_string y @ ''.'' @ decimal_string z))"
    using release_path_full_version[OF vs rel] by blast
  have standard: "\<forall>v. prerelease v = [] \<longrightarrow>
            SemVer_inc ''major'' None v
              = Some (v\<lparr>major := major v + 1, minor := 0, patch := 0, prerelease := []\<rparr>) \<and>
            SemVer_inc ''minor'' None v
              = Some (v\<lparr>minor := minor v + 1, patch := 0, prerelease := []\<rparr>) \<and>
            SemVer_inc ''patch'' None v = Some (v\<lparr>patch := patch v + 1, prerelease := []\<rparr>)"
    by (simp add: SemVer_inc_def inc_patch_def starts_with_def)
  have minor_run: "main no_engine (example_context ''refs/heads/main'') example_inputs
           (example_remote [\<lparr>tag_name = ''v1.2.0'', tag_commit_sha = ''a1''\<rparr>] ''refs/heads/main'' ''c3''
              [\<lparr>commit_sha = ''c3'', commit_message = ''update readme''\<rparr>,
               \<lparr>commit_sha = ''c2'', commit_message = ''refactor the parser''\<rparr>,
               \<lparr>commit_sha = ''a1'', commit_message = ''release 1.2.0''\<rparr>])
           = ([SetOutput ''tag'' ''v1.2.0'', SetOutput ''new-tag'' ''1.3.0'',
               CreateRef ''refs/tags/v1.3.0'' ''c3''], Success)"
    by code_simp
  have major_run: "main no_engine (example_context ''refs/heads/main'') example_inputs
           (example_remote [\<lparr>tag_name = ''v1.2.0'', tag_commit_sha = ''a1''\<rparr>] ''refs/heads/main'' ''c3''
              [\<lparr>commit_sha = ''c3'', commit_message = ''update readme''\<rparr>,
               \<lparr>commit_sha = ''c2'', commit_message = ''drop the old API #major''\<rparr>,
               \<lparr>commit_sha = ''a1'', commit_message = ''release 1.2.0''\<rparr>])
           = ([SetOutput ''tag'' ''v1.2.0'', SetOutput ''new-tag'' ''2.0.0'',
               CreateRef ''refs/tags/v2.0.0'' ''c3''], Success)"
    by code_simp
  show ?thesis
    by (intro conjI) (rule run, rule full, rule standard, rule minor_run, rule major_run)
qed

theorem release_segment_bump_witness:
  "fst (action no_engine (example_context ''refs/heads/release/v1'')
         (example_inputs\<lparr>release_branch := ''v1''\<rparr>)
         (example_remote [\<lparr>tag_name = ''v1.2.0'', tag_commit_sha = ''a1''\<rparr>]
            ''refs/heads/release/v1'' ''c3''
            [\<lparr>commit_sha = ''c3'', commit_message = ''closes the gap #patch''\<rparr>,
             \<lparr>commit_sha = ''a1'', commit_message = ''release 1.2.0''\<rparr>]))
     = [SetOutput ''tag'' ''v1.2.0'', SetOutput ''new-tag'' ''1.2.1'',
        CreateRef ''refs/tags/v1.2.1'' ''c3'']"
proof -
  let ?ctx = "example_context ''refs/heads/release/v1''"
  let ?inp = "example_inputs\<lparr>release_branch := ''v1''\<rparr>"
  let ?rem = "example_remote [\<lparr>tag_name = ''v1.2.0'', tag_commit_sha = ''a1''\<rparr>]
            ''refs/heads/release/v1'' ''c3''
            [\<lparr>commit_sha = ''c3'', commit_message = ''closes the gap #patch''\<rparr>,
             \<lparr>commit_sha = ''a1'', commit_message = ''release 1.2.0''\<rparr>]"
  let ?bi = "\<lparr>ref_ref = ''refs/heads/release/v1'', ref_object_sha = ''c3''\<rparr>"
  let ?t = "\<lparr>tag_name = ''v1.2.0'', tag_commit_sha = ''a1''\<rparr>"
  have 1: "getInput (github_token ?inp) \<noteq> []" by code_simp
  have 2: "getInput (tag_input ?inp) = []" by code_simp
  have 3: "resolve_branch ?ctx ?inp ?rem = Inr ?bi" by code_simp
  have 4: "getLatestTag ?rem True = Inr (Some ?t)" by code_simp
  have 5: "getLatestTag ?rem False = Inr (Some ?t)" by code_simp
  have 6: "(case Some ?t of None \<Rightarrow> True | Some t \<Rightarrow> tag_commit_sha t \<noteq> ref_object_sha ?bi)"
    by code_simp
  have 7: "checkMessages ?rem (ref_object_sha ?bi) (map_option tag_commit_sha (Some ?t))
             (issLabs_of (getInput (issue_labels_input ?inp))) = Inr ''patch''"
    by code_simp
  have 8: "isReleaseBranch no_engine (last (js_split CHR ''/'' (ref_ref ?bi)))
             (getInput (release_branch ?inp)) = Inr True"
    by code_simp
  show ?thesis
    by (rule trans[OF release_segment_bump[OF 1 2 3 4 5 6 7 8, THEN conjunct1]]) code_simp
qed

text \<open>
  C5, as the claim states it, fails: \<open>action\<close> takes as branch name what follows the last
  \<open>/\<close> of the branch's ref, so for the branch \<open>feature/x\<close> the prerelease identifier is
  \<open>x\<close>, and the version the run sets is not \<open>1.2.1-feature.x.0\<close>.
\<close>

theorem feature_branch_version_is_not_sanitized_name:
  "SetOutput ''new-tag'' ''1.2.1-feature.x.0''
     \<notin> set (fst (main no_engine (example_context ''refs/heads/feature/x'') example_inputs
                   (example_remote [\<lparr>tag_name = ''v1.2.0'', tag_commit_sha = ''a1''\<rparr>,
                                    \<lparr>tag_name = ''v1.2.1-rc.1'', tag_commit_sha = ''b2''\<rparr>]
                      ''refs/heads/feature/x'' ''c3''
                      [\<lparr>commit_sha = ''c3'', commit_message = ''work on x''\<rparr>,
                       \<lparr>commit_sha = ''b2'', commit_message = ''release candidate''\<rparr>,
                       \<lparr>commit_sha = ''a1'', commit_message = ''release 1.2.0''\<rparr>])))"
  by code_simp

text \<open>
  C5, amended: for the tags \<open>v1.2.0\<close> and \<open>v1.2.1-rc.1\<close> and the resolved branch
  \<open>feature/x\<close>, which is not a release branch, the next version is the prerelease
  increment of the latest version, \<open>1.2.1-rc.1\<close>, tagged with the last segment of the
  branch's ref, \<open>x\<close>: it is \<open>1.2.1-x.0\<close>, and the run creates the tag \<open>v1.2.1-x.0\<close>.
\<close>

theorem feature_branch_prerelease_increment:
  "main no_engine (example_context ''refs/heads/feature/x'') example_inputs
     (example_remote [\<lparr>tag_name = ''v1.2.0'', tag_commit_sha = ''a1''\<rparr>,
                      \<lparr>tag_name = ''v1.2.1-rc.1'', tag_commit_sha = ''b2''\<rparr>]
        ''refs/heads/feature/x'' ''c3''
        [\<lparr>commit_sha = ''c3'', commit_message = ''work on x''\<rparr>,
         \<lparr>commit_sha = ''b2'', commit_message = ''release candidate''\<rparr>,
         \<lparr>commit_sha = ''a1'', commit_message = ''release 1.2.0''\<rparr>])
     = ([SetOutput ''tag'' ''v1.2.1-rc.1'', SetOutput ''new-tag'' ''1.2.1-x.0'',
         CreateRef ''refs/tags/v1.2.1-x.0'' ''c3''], Success) \<and>
   last (js_split CHR ''/'' ''refs/heads/feature/x'') = ''x'' \<and>
   isReleaseBranch no_engine ''x'' (getInput (release_branch example_inputs)) = Inr False \<and>
   semver_inc (clean ''v1.2.1-rc.1'') ''prerelease'' (Some ''x'') = Some ''1.2.1-x.0''"
  by code_simp

text \<open>
  C10. When the input \<open>release-branch\<close> is the empty string, \<open>isReleaseBranch\<close> answers
  true for every branch name: the one pattern is the empty pattern, which matches every
  subject. So in that configuration the version the run sets is never the prerelease
  increment computed first: it is \<open>semver.inc\<close> of the current version by the level found
  in the commit messages or, when that is \<open>none\<close>, by the configured bump. When the
  configured bump is \<open>major\<close>, \<open>minor\<close> or \<open>patch\<close>, that version is a plain \<open>X.Y.Z\<close>, a
  full bump.
\<close>

theorem empty_release_branch_matches_all:
  "isReleaseBranch engine branchName [] = Inr True \<and>
   (getInput (release_branch inp) = []
      \<and> version_step engine inp rem sha branchName = (effs, Inr nextVersion)
    \<longrightarrow> (\<exists>latestTag latestMainTag msgLevel.
           getLatestTag rem True = Inr latestTag \<and>
           getLatestTag rem False = Inr latestMainTag \<and>
           checkMessages rem sha (map_option tag_commit_sha latestMainTag)
             (issLabs_of (getInput (issue_labels_input inp))) = Inr msgLevel \<and>
           msgLevel \<in> {''none'', ''patch'', ''minor'', ''major''} \<and>
           nextVersion =
             of_inc (semver_inc (clean (case latestTag of None \<Rightarrow> ''0.0.0'' | Some t \<Rightarrow> tag_name t))
                       (if msgLevel = ''none'' then getInput (bump inp) else msgLevel) None))) \<and>
   (getInput (release_branch inp) = []
      \<and> version_step engine inp rem sha branchName = (effs, Inr nextVersion)
      \<and> getInput (bump inp) \<in> {''major'', ''minor'', ''patch''}
    \<longrightarrow> (\<exists>x y z. nextVersion
           = Text (decimal_string x @ ''.'' @ decimal_string y @ ''.'' @ decimal_string z)))"
proof (intro conjI impI)
  show "isReleaseBranch engine branchName [] = Inr True"
    by (rule isReleaseBranch_empty)
next
  assume h: "getInput (release_branch inp) = []
      \<and> version_step engine inp rem sha branchName = (effs, Inr nextVersion)
      \<and> getInput (bump inp) \<in> {''major'', ''minor'', ''patch''}"
  then have "isReleaseBranch engine branchName (getInput (release_branch inp)) = Inr True"
    by (simp add: isReleaseBranch_empty)
  with h release_path_full_version[of engine inp rem sha branchName effs nextVersion]
  show "\<exists>x y z. nextVersion
           = Text (decimal_string x @ ''.'' @ decimal_string y @ ''.'' @ decimal_string z)"
    by blast
next
  assume h: "getInput (release_branch inp) = []
               \<and> version_step engine inp rem sha branchName = (effs, Inr nextVersion)"
  from version_step_result[of engine inp rem sha branchName effs nextVersion] h
  obtain latestTag latestMainTag msgLevel is_release where
    r: "getLatestTag rem True = Inr latestTag" "getLatestTag rem False = Inr latestMainTag"
       "checkMessages rem sha (map_option tag_commit_sha latestMainTag)
             (issLabs_of (getInput (issue_labels_input inp))) = Inr msgLevel"
       "isReleaseBranch engine branchName (getInput (release_branch inp)) = Inr is_release"
       "nextVersion = next_version (clean (case latestTag of None \<Rightarrow> ''0.0.0'' | Some t \<Rightarrow> tag_name t))
                           branchName (getInput (bump inp)) msgLevel is_release"
    by blast
  from r(4) h have "is_release" by (simp add: isReleaseBranch_empty)
  with r(5) have "nextVersion =
             of_inc (semver_inc (clean (case latestTag of None \<Rightarrow> ''0.0.0'' | Some t \<Rightarrow> tag_name t))
                       (if msgLevel = ''none'' then getInput (bump inp) else msgLevel) None)"
    by (simp add: next_version_def)
  moreover from r(3) have "msgLevel \<in> {''none'', ''patch'', ''minor'', ''major''}"
    by (rule checkMessages_values)
  ultimately show "\<exists>latestTag latestMainTag msgLevel.
           getLatestTag rem True = Inr latestTag \<and>
           getLatestTag rem False = Inr latestMainTag \<and>
           checkMessages rem sha (map_option tag_commit_sha latestMainTag)
             (issLabs_of (getInput (issue_labels_input inp))) = Inr msgLevel \<and>
           msgLevel \<in> {''none'', ''patch'', ''minor'', ''major''} \<and>
           nextVersion =
             of_inc (semver_inc (clean (case latestTag of None \<Rightarrow> ''0.0.0'' | Some t \<Rightarrow> tag_name t))
                       (if msgLevel = ''none'' then getInput (bump inp) else msgLevel) None)"
    using r(1-3) by blast
qed

theorem empty_release_branch_matches_all_witness:
  "version_step no_engine (example_inputs\<lparr>release_branch := []\<rparr>)
     (example_remote [\<lparr>tag_name = ''v1.2.0'', tag_commit_sha = ''a1''\<rparr>,
                      \<lparr>tag_name = ''v1.2.1-rc.1'', tag_commit_sha = ''b2''\<rparr>]
        ''refs/heads/feature/x'' ''c3''
        [\<lparr>commit_sha = ''c3'', commit_message = ''work on x''\<rparr>]) ''c3'' ''x''
     = ([SetOutput ''tag'' ''v1.2.1-rc.1'', SetOutput ''new-tag'' ''1.3.0''], Inr (Text ''1.3.0'')) \<and>
   Text ''1.3.0'' = of_inc (semver_inc (clean ''v1.2.1-rc.1'') ''minor'' None) \<and>
   isReleaseBranch no_engine ''x'' [] = Inr True"
proof -
  let ?inp = "example_inputs\<lparr>release_branch := []\<rparr>"
  let ?rem = "example_remote [\<lparr>tag_name = ''v1.2.0'', tag_commit_sha = ''a1''\<rparr>,
                      \<lparr>tag_name = ''v1.2.1-rc.1'', tag_commit_sha = ''b2''\<rparr>]
        ''refs/heads/feature/x'' ''c3''
        [\<lparr>commit_sha = ''c3'', commit_message = ''work on x''\<rparr>]"
  have 1: "getInput (release_branch ?inp) = []"
    by code_simp
  have 2: "version_step no_engine ?inp ?rem ''c3'' ''x''
     = ([SetOutput ''tag'' ''v1.2.1-rc.1'', SetOutput ''new-tag'' ''1.3.0''], Inr (Text ''1.3.0''))"
    by code_simp
  have 3: "Text ''1.3.0'' = of_inc (semver_inc (clean ''v1.2.1-rc.1'') ''minor'' None)"
    by code_simp
  from empty_release_branch_matches_all[of no_engine "''x''" ?inp ?rem "''c3''"] 1 2 3
  show ?thesis by blast
qed

section \<open>The tag resolver\<close>

text \<open>
  C1 does not hold of the code. \<open>getLatestTag\<close> keeps the tags whose name \<open>semver.clean\<close>
  accepts and sorts them by their cleaned names, but its filter for prereleases asks
  \<open>semver.prerelease\<close> about the raw name. \<open>clean\<close> strips any run of \<open>=\<close> and \<open>v\<close> from the
  front, \<open>prerelease\<close> parses the name as it is and answers \<open>null\<close> for a name it cannot
  parse. So the tag \<open>vv1.3.0-rc.1\<close> qualifies, is a prerelease, and is returned as the
  latest main tag, where the maximum of the qualifying tags without prerelease
  identifiers is \<open>v1.2.0\<close>.
\<close>

theorem latest_main_tag_can_be_prerelease:
  "getLatestTag
     (example_remote [\<lparr>tag_name = ''v1.2.0'', tag_commit_sha = ''a1''\<rparr>,
                      \<lparr>tag_name = ''vv1.3.0-rc.1'', tag_commit_sha = ''b2''\<rparr>]
        ''refs/heads/main'' ''c3'' []) False
     = Inr (Some \<lparr>tag_name = ''vv1.3.0-rc.1'', tag_commit_sha = ''b2''\<rparr>) \<and>
   clean ''vv1.3.0-rc.1'' = Some ''1.3.0-rc.1'' \<and>
   semver_prerelease ''1.3.0-rc.1'' = Some [Str ''rc'', Num 1] \<and>
   semver_prerelease ''vv1.3.0-rc.1'' = None \<and>
   clean ''v1.2.0'' = Some ''1.2.0'' \<and>
   semver_prerelease ''1.2.0'' = None"
  by code_simp

end
